theory Spec2Isabelle
  imports Main "HOL-Library.Multiset"
begin

section \<open>Cards (tonto/card.py)\<close>

text \<open>
  \<^verbatim>\<open>Card.SUIT = IntEnum("Suit", "Spades Diamonds Hearts Clubs")\<close> numbers the suits
  from 1; \<^verbatim>\<open>Card.RANK = IntEnum("Rank", ALL_RANKS, start=2)\<close> numbers the ranks
  "2" .. "10", "Jack", "Queen", "King", "Ace" from 2.
\<close>

datatype suit = Spades | Diamonds | Hearts | Clubs

datatype rank = R2 | R3 | R4 | R5 | R6 | R7 | R8 | R9 | R10 | Jack | Queen | King | Ace

fun suit_value :: "suit \<Rightarrow> int" where
  "suit_value Spades = 1"
| "suit_value Diamonds = 2"
| "suit_value Hearts = 3"
| "suit_value Clubs = 4"

fun rank_value :: "rank \<Rightarrow> int" where
  "rank_value R2 = 2"
| "rank_value R3 = 3"
| "rank_value R4 = 4"
| "rank_value R5 = 5"
| "rank_value R6 = 6"
| "rank_value R7 = 7"
| "rank_value R8 = 8"
| "rank_value R9 = 9"
| "rank_value R10 = 10"
| "rank_value Jack = 11"
| "rank_value Queen = 12"
| "rank_value King = 13"
| "rank_value Ace = 14"

definition ALL_SUITS :: "suit list" where
  "ALL_SUITS = [Spades, Diamonds, Hearts, Clubs]"

definition ALL_RANKS :: "rank list" where
  "ALL_RANKS = [R2, R3, R4, R5, R6, R7, R8, R9, R10, Jack, Queen, King, Ace]"

record playing_card =
  suit :: suit
  rank :: rank

text \<open>\<^verbatim>\<open>Card.score\<close>: the suit's value times the rank's value.\<close>

definition card_score :: "playing_card \<Rightarrow> int" where
  "card_score c = suit_value (suit c) * rank_value (rank c)"

section \<open>Errors\<close>

text \<open>
  The exceptions of tonto/exception.py that the modelled code raises, and Python's
  own \<^verbatim>\<open>IndexError\<close>, which list indexing raises out of range.
\<close>

datatype error =
    DeckEmptyError
  | GameError string
  | InvalidPlayerError string
  | IndexError

text \<open>
  Python list indexing \<^verbatim>\<open>xs[i]\<close>: a negative index counts from the end, and an
  index outside the list raises \<^verbatim>\<open>IndexError\<close>.
\<close>

definition getitem :: "'a list \<Rightarrow> int \<Rightarrow> error + 'a" where
  "getitem xs i =
     (if 0 \<le> i \<and> i < int (length xs) then Inr (xs ! nat i)
      else if i < 0 \<and> - int (length xs) \<le> i then Inr (xs ! nat (int (length xs) + i))
      else Inl IndexError)"

section \<open>Player (tonto/player.py)\<close>

text \<open>
  A player's hand is a \<^verbatim>\<open>Deck(empty=True)\<close> that only ever receives
  \<^verbatim>\<open>add_card\<close> (append), \<^verbatim>\<open>len\<close>, indexing and iteration; it is modelled by
  the list of its cards, in draw order. Equality of players (\<^verbatim>\<open>Player.__eq__\<close>) compares
  the hand and the name, which is equality of the record.
\<close>

record player =
  name :: string
  hand :: "playing_card list"

definition Player :: "string \<Rightarrow> player" where
  "Player nm = \<lparr>name = nm, hand = []\<rparr>"

definition clear_hand :: "player \<Rightarrow> player" where
  "clear_hand p = p\<lparr>hand := []\<rparr>"

definition draw_card :: "player \<Rightarrow> playing_card \<Rightarrow> player" where
  "draw_card p c = p\<lparr>hand := hand p @ [c]\<rparr>"

text \<open>
  \<^verbatim>\<open>Player.score(round_number=0)\<close>. A nonzero round number larger than the hand gives
  0; otherwise the card at index \<^verbatim>\<open>round_number - 1\<close> is read with Python's indexing
  (so a negative round number reads from the end of the hand or raises); round number 0
  gives the sum over the hand.
\<close>

definition score :: "player \<Rightarrow> int \<Rightarrow> error + int" where
  "score p round_number =
     (if round_number \<noteq> 0 then
        (if round_number > int (length (hand p)) then Inr 0
         else (case getitem (hand p) (round_number - 1) of
                 Inl e \<Rightarrow> Inl e
               | Inr c \<Rightarrow> Inr (card_score c)))
      else Inr (sum_list (map card_score (hand p))))"

text \<open>The call \<^verbatim>\<open>player.score()\<close>, with the default round number.\<close>

definition score_default :: "player \<Rightarrow> error + int" where
  "score_default p = score p 0"

section \<open>Deck (tonto/deck.py)\<close>

text \<open>
  The deck holds its cards bottom to top: \<^verbatim>\<open>add_card\<close> appends and \<^verbatim>\<open>get_card\<close> pops
  the last element. The deck's \<^verbatim>\<open>Random\<close> instance is not part of the sources: the
  permutation its \<open>k\<close>-th call of \<^verbatim>\<open>shuffle\<close> applies is the parameter \<open>shuf k\<close> of the
  functions below, and the field \<open>rand\<close> counts the calls made so far.
\<close>

record deck =
  cards :: "playing_card list"
  current_card :: nat
  rand :: nat

type_synonym shuffler = "nat \<Rightarrow> playing_card list \<Rightarrow> playing_card list"

definition initiate_deck :: "deck \<Rightarrow> deck" where
  "initiate_deck d =
     d\<lparr>cards := concat (map (\<lambda>s. map (\<lambda>r. \<lparr>suit = s, rank = r\<rparr>) ALL_RANKS) ALL_SUITS),
       current_card := 0\<rparr>"

definition Deck :: "bool \<Rightarrow> nat \<Rightarrow> deck" where
  "Deck is_empty random_instance =
     (let d = \<lparr>cards = [], current_card = 0, rand = random_instance\<rparr>
      in if \<not> is_empty then initiate_deck d else d)"

definition add_card :: "deck \<Rightarrow> playing_card \<Rightarrow> deck" where
  "add_card d c = d\<lparr>cards := cards d @ [c]\<rparr>"

definition get_card :: "deck \<Rightarrow> error + (playing_card \<times> deck)" where
  "get_card d =
     (if cards d = [] then Inl DeckEmptyError
      else Inr (last (cards d), d\<lparr>cards := butlast (cards d)\<rparr>))"

definition new_deck :: "deck \<Rightarrow> deck" where
  "new_deck d = initiate_deck d"

definition shuffle :: "shuffler \<Rightarrow> deck \<Rightarrow> deck" where
  "shuffle shuf d = d\<lparr>cards := shuf (rand d) (cards d), rand := Suc (rand d)\<rparr>"

text \<open>\<^verbatim>\<open>Deck.__bool__\<close>.\<close>

definition deck_bool :: "deck \<Rightarrow> bool" where
  "deck_bool d = (cards d \<noteq> [])"

section \<open>Players and the leaderboard (tonto/player.py)\<close>

text \<open>The named tuple \<^verbatim>\<open>PLACE\<close> and the constant \<^verbatim>\<open>EMPTY_PLACE\<close>.\<close>

record place =
  pl_player :: "player option"
  pl_players :: "player list"
  pl_name :: "string option"
  pl_names :: "string list"
  pl_place :: int
  pl_score :: int
  pl_tie :: bool

definition EMPTY_PLACE :: place where
  "EMPTY_PLACE = \<lparr>pl_player = None, pl_players = [], pl_name = None, pl_names = [],
     pl_place = 0, pl_score = 0, pl_tie = False\<rparr>"

text \<open>
  The object \<^verbatim>\<open>Players\<close>: the list \<^verbatim>\<open>_players\<close> and the cursor \<^verbatim>\<open>_current_player\<close>.
  The attribute that \<^verbatim>\<open>setattr(self, name, player)\<close> adds for each player is read off
  the list: the attributes set this way are the names of the players in it.
\<close>

record players =
  players_list :: "player list"
  current_player :: nat

text \<open>
  \<^verbatim>\<open>hasattr(self, name)\<close> inside \<^verbatim>\<open>Players.__init__\<close>. An attribute exists when it is
  one of the methods the class defines, one of the two instance attributes set before
  the loop, an attribute set for an earlier name, or one of the attributes Python gives
  every object (\<^verbatim>\<open>__class__\<close>, \<^verbatim>\<open>__dict__\<close>, \<^verbatim>\<open>__doc__\<close>, ...). The last group is
  not in the sources and is the parameter \<open>builtin\<close>.
\<close>

definition CLASS_ATTRIBUTES :: "string list" where
  "CLASS_ATTRIBUTES = [''__init__'', ''reset'', ''first'', ''second'', ''third'',
     ''_get_leaderboard'', ''__getitem__'', ''__iter__'', ''__len__'', ''__next__'',
     ''__str__'', ''__eq__'']"

definition INSTANCE_ATTRIBUTES :: "string list" where
  "INSTANCE_ATTRIBUTES = [''_current_player'', ''_players'']"

definition hasattr :: "string list \<Rightarrow> players \<Rightarrow> string \<Rightarrow> bool" where
  "hasattr builtin self nm =
     (nm \<in> set builtin \<or> nm \<in> set CLASS_ATTRIBUTES \<or> nm \<in> set INSTANCE_ATTRIBUTES
      \<or> nm \<in> set (map name (players_list self)))"

fun Players_loop :: "string list \<Rightarrow> players \<Rightarrow> string list \<Rightarrow> error + players" where
  "Players_loop builtin self [] = Inr self"
| "Players_loop builtin self (nm # names) =
     (if hasattr builtin self nm then Inl (InvalidPlayerError nm)
      else Players_loop builtin (self\<lparr>players_list := players_list self @ [Player nm]\<rparr>) names)"

definition Players :: "string list \<Rightarrow> string list \<Rightarrow> error + players" where
  "Players builtin names = Players_loop builtin \<lparr>players_list = [], current_player = 0\<rparr> names"

definition reset :: "players \<Rightarrow> players" where
  "reset self = self\<lparr>players_list := map clear_hand (players_list self), current_player := 0\<rparr>"

text \<open>
  \<^verbatim>\<open>sorted(self._players, key=lambda x: x.score(rn), reverse=True)\<close>. The keys are
  computed once, in list order, and the first key that raises ends the call
  (\<open>keyed\<close>). The sort is stable and descending (\<open>sorted_reverse\<close>): players with equal
  keys keep their order. Each player travels with its key; the later calls
  \<^verbatim>\<open>player.score(rn)\<close> of the loop, on players that have not changed, return that key.
\<close>

fun keyed :: "int \<Rightarrow> player list \<Rightarrow> error + (int \<times> player) list" where
  "keyed rn [] = Inr []"
| "keyed rn (p # ps) =
     (case score p rn of
        Inl e \<Rightarrow> Inl e
      | Inr k \<Rightarrow> (case keyed rn ps of Inl e \<Rightarrow> Inl e | Inr kps \<Rightarrow> Inr ((k, p) # kps)))"

definition sorted_reverse :: "(int \<times> player) list \<Rightarrow> (int \<times> player) list" where
  "sorted_reverse kps = sort_key (\<lambda>kp. - fst kp) kps"

text \<open>
  A Python dictionary keeps its keys in insertion order: an assignment to a key that is
  present replaces the value in place, and a new key goes to the end.
\<close>

fun dict_set :: "('k \<times> 'v) list \<Rightarrow> 'k \<Rightarrow> 'v \<Rightarrow> ('k \<times> 'v) list" where
  "dict_set [] k v = [(k, v)]"
| "dict_set ((k', v') # d) k v =
     (if k' = k then (k, v) # d else (k', v') # dict_set d k v)"

definition dict_get :: "('k \<times> 'v) list \<Rightarrow> 'k \<Rightarrow> 'v \<Rightarrow> 'v" where
  "dict_get d k dflt = (case map_of d k of None \<Rightarrow> dflt | Some v \<Rightarrow> v)"

text \<open>
  The inner loop of \<^verbatim>\<open>_get_leaderboard\<close>, from index \<open>i\<close> on: the first argument is
  the score of \<^verbatim>\<open>player\<close>, the second the rest of \<^verbatim>\<open>l_b\<close> from \<open>i\<close>, the third
  \<^verbatim>\<open>lis\<close>. It returns \<^verbatim>\<open>lis\<close> and the rest of \<^verbatim>\<open>l_b\<close> from the new \<open>i\<close>.
\<close>

fun inner_loop ::
  "int \<Rightarrow> (int \<times> player) list \<Rightarrow> player list \<Rightarrow> player list \<times> (int \<times> player) list" where
  "inner_loop s [] lis = (lis, [])"
| "inner_loop s (kp # rest) lis =
     (if s = fst kp then inner_loop s rest (lis @ [snd kp]) else (lis, kp # rest))"

lemma inner_loop_eq:
  "inner_loop s xs lis =
     (lis @ map snd (takeWhile (\<lambda>kp. s = fst kp) xs), dropWhile (\<lambda>kp. s = fst kp) xs)"
  by (induction xs arbitrary: lis) auto

definition make_place :: "player list \<Rightarrow> int \<Rightarrow> int \<Rightarrow> place" where
  "make_place lis pos s =
     \<lparr>pl_player = Some (hd lis), pl_players = lis, pl_name = Some (name (hd lis)),
      pl_names = map name lis, pl_place = pos, pl_score = s, pl_tie = (length lis > 1)\<rparr>"

text \<open>
  The outer loop: the rest of \<^verbatim>\<open>l_b\<close> from \<open>i\<close>, the counter \<^verbatim>\<open>place\<close> and the
  dictionary built so far. The inner loop always takes the player at \<open>i\<close> itself, so
  \<^verbatim>\<open>lis[0]\<close> exists and the rest gets shorter.
\<close>

function leaderboard_loop ::
  "(int \<times> player) list \<Rightarrow> int \<Rightarrow> (int \<times> place) list \<Rightarrow> (int \<times> place) list" where
  "leaderboard_loop [] pos l_b_dict = l_b_dict"
| "leaderboard_loop ((s, player) # rest) pos l_b_dict =
     (case inner_loop s ((s, player) # rest) [] of
        (lis, remaining) \<Rightarrow>
          leaderboard_loop remaining (pos + 1) (dict_set l_b_dict pos (make_place lis pos s)))"
  by pat_completeness auto
termination
  by (relation "measure (\<lambda>(l_b, pos, d). length l_b)")
     (auto simp: inner_loop_eq length_dropWhile_le le_imp_less_Suc)

definition get_leaderboard :: "players \<Rightarrow> int \<Rightarrow> error + (int \<times> place) list" where
  "get_leaderboard self rn =
     (case keyed rn (players_list self) of
        Inl e \<Rightarrow> Inl e
      | Inr kps \<Rightarrow> Inr (leaderboard_loop (sorted_reverse kps) 1 []))"

definition first :: "players \<Rightarrow> int \<Rightarrow> error + place" where
  "first self round_number =
     (case get_leaderboard self round_number of
        Inl e \<Rightarrow> Inl e
      | Inr d \<Rightarrow> Inr (dict_get d 1 EMPTY_PLACE))"

definition second :: "players \<Rightarrow> int \<Rightarrow> error + place" where
  "second self round_number =
     (case get_leaderboard self round_number of
        Inl e \<Rightarrow> Inl e
      | Inr d \<Rightarrow> Inr (dict_get d 2 EMPTY_PLACE))"

definition third :: "players \<Rightarrow> int \<Rightarrow> error + place" where
  "third self round_number =
     (case get_leaderboard self round_number of
        Inl e \<Rightarrow> Inl e
      | Inr d \<Rightarrow> Inr (dict_get d 3 EMPTY_PLACE))"

text \<open>
  Python's decimal rendering of an integer (\<^verbatim>\<open>str.format\<close>), \<^verbatim>\<open>"\n".join\<close>, and the
  line \<^verbatim>\<open>"{place}: {player} ({score})"\<close> of \<^verbatim>\<open>Players.__str__\<close>.
\<close>

definition digit_char :: "nat \<Rightarrow> char" where
  "digit_char n = ''0123456789'' ! n"

fun str_nat :: "nat \<Rightarrow> string" where
  "str_nat n = (if n < 10 then [digit_char n] else str_nat (n div 10) @ [digit_char (n mod 10)])"

declare str_nat.simps [simp del]

definition str_int :: "int \<Rightarrow> string" where
  "str_int i = (if i < 0 then ''-'' @ str_nat (nat (- i)) else str_nat (nat i))"

fun join :: "string \<Rightarrow> string list \<Rightarrow> string" where
  "join sep [] = []"
| "join sep [x] = x"
| "join sep (x # y # ys) = x @ sep @ join sep (y # ys)"

definition format_line :: "int \<Rightarrow> string \<Rightarrow> int \<Rightarrow> string" where
  "format_line pos nm sc = str_int pos @ '': '' @ nm @ '' ('' @ str_int sc @ '')''"

definition leaderboard_list :: "(int \<times> place) list \<Rightarrow> string list" where
  "leaderboard_list leaderboard =
     concat (map (\<lambda>(pos, place_nt).
       map (\<lambda>nm. format_line pos nm (pl_score place_nt)) (pl_names place_nt)) leaderboard)"

definition players_str :: "players \<Rightarrow> error + string" where
  "players_str self =
     (case get_leaderboard self 0 of
        Inl e \<Rightarrow> Inl e
      | Inr leaderboard \<Rightarrow> Inr (join [CHR 0x0A] (leaderboard_list leaderboard)))"

section \<open>Game (tonto/game.py)\<close>

text \<open>
  The message collaborator (the random choice of a template, its substitution and the
  printing) and the prompt \<^verbatim>\<open>input\<close> are outside the embedding: every call of
  \<^verbatim>\<open>_display_message\<close> is recorded as an event with its category and its arguments,
  and \<^verbatim>\<open>print(self.players)\<close> as the event \<open>PRINT\<close>. The events are kept in the
  field \<open>out\<close> of the game, in the order they are displayed.
\<close>

datatype event =
    WELCOME
  | ROUND_START int
  | ROUND_END "string option"
  | ROUND_END_TIE
  | TURN_START string
  | TURN_END bool string playing_card int
  | GAME_OVER "string option"
  | GAME_OVER_TIE
  | EMPTY_DECK
  | PRINT string

type_synonym messages = "(string \<times> string list) list"

record game =
  message :: messages
  deck :: deck
  players :: players
  current_round :: int
  is_active :: bool
  max_rounds :: int
  out :: "event list"

definition display_message :: "game \<Rightarrow> event \<Rightarrow> game" where
  "display_message g ev = g\<lparr>out := out g @ [ev]\<rparr>"

text \<open>
  \<^verbatim>\<open>Game.__init__(names, deck, max_rounds, message)\<close>. The file messages.conf is not
  part of the sources: \<open>conf\<close> is what reading it gives, \<open>None\<close> when it cannot be
  opened (\<^verbatim>\<open>IOError\<close>). \<^verbatim>\<open>if message\<close> and \<^verbatim>\<open>if deck\<close> test for a non-empty
  dictionary and a non-empty deck.
\<close>

definition read_conf :: "messages option \<Rightarrow> error + messages" where
  "read_conf conf =
     (case conf of
        None \<Rightarrow> Inl (GameError ''Could not open messages config file.'')
      | Some m \<Rightarrow> Inr m)"

definition Game ::
  "shuffler \<Rightarrow> string list \<Rightarrow> messages option \<Rightarrow>
   string list \<Rightarrow> deck option \<Rightarrow> int \<Rightarrow> messages option \<Rightarrow> error + game" where
  "Game shuf builtin conf names deck_arg max_rounds_arg message_arg =
     (if max_rounds_arg < 1 then Inl (GameError ''Invalid max number of rounds.'')
      else if length names = 0 then Inl (GameError ''Invalid number of players.'')
      else
        (case (case message_arg of
                 None \<Rightarrow> read_conf conf
               | Some m \<Rightarrow> if m \<noteq> [] then Inr m else read_conf conf) of
           Inl e \<Rightarrow> Inl e
         | Inr msg \<Rightarrow>
             (let d = (case deck_arg of
                         None \<Rightarrow> shuffle shuf (Deck False 0)
                       | Some d0 \<Rightarrow> if deck_bool d0 then d0 else shuffle shuf (Deck False 0))
              in case Players builtin names of
                   Inl e \<Rightarrow> Inl e
                 | Inr ps \<Rightarrow>
                     Inr \<lparr>message = msg, deck = d, players = ps, current_round = 1,
                          is_active = True, max_rounds = max_rounds_arg, out = []\<rparr>)))"

definition end_game :: "game \<Rightarrow> game" where
  "end_game g = g\<lparr>is_active := False\<rparr>"

definition new_game :: "shuffler \<Rightarrow> game \<Rightarrow> game" where
  "new_game shuf g =
     g\<lparr>is_active := True, deck := shuffle shuf (new_deck (deck g)), current_round := 1,
       players := reset (players g)\<rparr>"

text \<open>
  The \<^verbatim>\<open>try\<close> block of a turn: a card from the deck, or, when \<^verbatim>\<open>get_card\<close> raises
  \<^verbatim>\<open>DeckEmptyError\<close>, the message, a new shuffled deck and a second \<^verbatim>\<open>get_card\<close>,
  whose error nothing catches.
\<close>

definition draw_from_deck :: "shuffler \<Rightarrow> game \<Rightarrow> error + (playing_card \<times> game)" where
  "draw_from_deck shuf g =
     (case get_card (deck g) of
        Inr (c, d) \<Rightarrow> Inr (c, g\<lparr>deck := d\<rparr>)
      | Inl DeckEmptyError \<Rightarrow>
          (let g1 = display_message g EMPTY_DECK;
               g2 = g1\<lparr>deck := new_deck (deck g1)\<rparr>;
               g3 = g2\<lparr>deck := shuffle shuf (deck g2)\<rparr>
           in case get_card (deck g3) of
                Inl e \<Rightarrow> Inl e
              | Inr (c, d) \<Rightarrow> Inr (c, g3\<lparr>deck := d\<rparr>))
      | Inl e \<Rightarrow> Inl e)"

text \<open>
  One pass of the body of \<^verbatim>\<open>for player in self.players\<close>, for the player at index
  \<open>i\<close> of the list. \<^verbatim>\<open>player.draw_card(card)\<close> changes the player inside the list;
  \<^verbatim>\<open>player in self.players.first().players\<close> compares with \<^verbatim>\<open>Player.__eq__\<close>.
\<close>

definition turn :: "shuffler \<Rightarrow> game \<Rightarrow> nat \<Rightarrow> error + game" where
  "turn shuf g i =
     (let player0 = players_list (players g) ! i;
          g1 = display_message g (TURN_START (name player0))
      in case draw_from_deck shuf g1 of
           Inl e \<Rightarrow> Inl e
         | Inr (c, g2) \<Rightarrow>
             (let player1 = draw_card player0 c;
                  g3 = g2\<lparr>players :=
                         (players g2)\<lparr>players_list := (players_list (players g2))[i := player1]\<rparr>\<rparr>
              in case first (players g3) 0 of
                   Inl e \<Rightarrow> Inl e
                 | Inr fp \<Rightarrow>
                     (let pos_result = (player1 \<in> set (pl_players fp))
                      in case score player1 0 of
                           Inl e \<Rightarrow> Inl e
                         | Inr sc \<Rightarrow>
                             Inr (display_message g3
                                    (TURN_END pos_result (name player1) c sc)))))"

fun turns :: "shuffler \<Rightarrow> game \<Rightarrow> nat list \<Rightarrow> error + game" where
  "turns shuf g [] = Inr g"
| "turns shuf g (i # rest) =
     (case turn shuf g i of Inl e \<Rightarrow> Inl e | Inr g1 \<Rightarrow> turns shuf g1 rest)"

text \<open>\<^verbatim>\<open>Game._next_round\<close>: a turn for every index of the list, then the round limit.\<close>

definition next_round :: "shuffler \<Rightarrow> game \<Rightarrow> error + game" where
  "next_round shuf g =
     (case turns shuf g [0..<length (players_list (players g))] of
        Inl e \<Rightarrow> Inl e
      | Inr g1 \<Rightarrow>
          (let g2 = (if current_round g1 \<ge> max_rounds g1 then end_game g1 else g1)
           in Inr (g2\<lparr>current_round := current_round g2 + 1\<rparr>)))"

text \<open>
  The round counter, the round limit and the activity flag through a turn and a round:
  what the termination of \<^verbatim>\<open>play\<close> rests on.
\<close>

lemma draw_from_deck_fields:
  assumes "draw_from_deck shuf g = Inr (c, g1)"
  shows "current_round g1 = current_round g \<and> max_rounds g1 = max_rounds g
         \<and> is_active g1 = is_active g \<and> players g1 = players g"
  using assms
  by (auto simp: draw_from_deck_def display_message_def Let_def
           split: sum.splits error.splits prod.splits)

lemma turn_fields:
  assumes "turn shuf g i = Inr g1"
  shows "current_round g1 = current_round g \<and> max_rounds g1 = max_rounds g
         \<and> is_active g1 = is_active g
         \<and> length (players_list (players g1)) = length (players_list (players g))"
proof -
  from assms obtain c g2 where
    d: "draw_from_deck shuf (display_message g (TURN_START (name (players_list (players g) ! i)))) = Inr (c, g2)"
    by (auto simp: turn_def Let_def split: sum.splits prod.splits)
  from draw_from_deck_fields [OF d] assms d show ?thesis
    by (auto simp: turn_def Let_def display_message_def split: sum.splits prod.splits)
qed

lemma turns_fields:
  assumes "turns shuf g is = Inr g1"
  shows "current_round g1 = current_round g \<and> max_rounds g1 = max_rounds g
         \<and> is_active g1 = is_active g
         \<and> length (players_list (players g1)) = length (players_list (players g))"
  using assms
proof (induction "is" arbitrary: g)
  case Nil
  then show ?case by simp
next
  case (Cons i rest)
  then obtain g2 where t: "turn shuf g i = Inr g2" and r: "turns shuf g2 rest = Inr g1"
    by (auto split: sum.splits)
  from turn_fields [OF t] Cons.IH [OF r] show ?case by simp
qed

lemma next_round_fields:
  assumes "next_round shuf g = Inr g1"
  shows "current_round g1 = current_round g + 1 \<and> max_rounds g1 = max_rounds g
         \<and> is_active g1 = (is_active g \<and> current_round g < max_rounds g)"
proof -
  from assms obtain g2 where
    t: "turns shuf g [0..<length (players_list (players g))] = Inr g2"
    by (auto simp: next_round_def split: sum.splits)
  from turns_fields [OF t] assms t show ?thesis
    by (auto simp: next_round_def Let_def end_game_def split: if_splits)
qed

text \<open>
  The loop \<^verbatim>\<open>while self._is_active\<close> of \<^verbatim>\<open>Game.play\<close>. The two calls
  \<^verbatim>\<open>self.players.first(last_round)\<close> of a pass read the same players and are one call
  here.
\<close>

function play_loop :: "shuffler \<Rightarrow> game \<Rightarrow> error + game" where
  "play_loop shuf g =
     (if is_active g then
        (let g1 = display_message g (ROUND_START (current_round g))
         in case next_round shuf g1 of
              Inl e \<Rightarrow> Inl e
            | Inr g2 \<Rightarrow>
                (let last_round = current_round g2 - 1
                 in case first (players g2) last_round of
                      Inl e \<Rightarrow> Inl e
                    | Inr fp \<Rightarrow>
                        (if pl_tie fp then play_loop shuf (display_message g2 ROUND_END_TIE)
                         else play_loop shuf (display_message g2 (ROUND_END (pl_name fp))))))
      else Inr g)"
  by pat_completeness auto
termination
proof (relation "measure (\<lambda>(shuf, g). if is_active g then nat (max_rounds g - current_round g) + 1 else 0)")
  show "wf (measure (\<lambda>(shuf, g). if is_active g then nat (max_rounds g - current_round g) + 1 else 0))"
    by simp
next
  fix shuf g g1 g2 last_round fp
  assume a: "is_active g" and g1: "g1 = display_message g (ROUND_START (current_round g))"
    and n: "next_round shuf g1 = Inr g2"
  from next_round_fields [OF n] g1 a
  show "((shuf, display_message g2 ROUND_END_TIE), shuf, g) \<in> measure (\<lambda>(shuf, g). if is_active g then nat (max_rounds g - current_round g) + 1 else 0)"
    by (auto simp: display_message_def)
next
  fix shuf g g1 g2 last_round fp
  assume a: "is_active g" and g1: "g1 = display_message g (ROUND_START (current_round g))"
    and n: "next_round shuf g1 = Inr g2"
  from next_round_fields [OF n] g1 a
  show "((shuf, display_message g2 (ROUND_END (pl_name fp))), shuf, g) \<in> measure (\<lambda>(shuf, g). if is_active g then nat (max_rounds g - current_round g) + 1 else 0)"
    by (auto simp: display_message_def)
qed

declare play_loop.simps [simp del]

definition play :: "shuffler \<Rightarrow> game \<Rightarrow> error + game" where
  "play shuf g =
     (let g0 = display_message g WELCOME
      in case play_loop shuf g0 of
           Inl e \<Rightarrow> Inl e
         | Inr g1 \<Rightarrow>
             (case first (players g1) 0 of
                Inl e \<Rightarrow> Inl e
              | Inr fp \<Rightarrow>
                  (let g2 = (if pl_tie fp then display_message g1 GAME_OVER_TIE
                             else display_message g1 (GAME_OVER (pl_name fp)))
                   in case players_str (players g2) of
                        Inl e \<Rightarrow> Inl e
                      | Inr s \<Rightarrow> Inr (display_message g2 (PRINT s)))))"

section \<open>Notions of the specification\<close>

text \<open>
  What the statements below are written with; none of this is part of the program.
  First the value a score returns, read as 0 where the call raises, and the total score
  of a player (\<^verbatim>\<open>score(0)\<close> never raises).
\<close>

definition score_value :: "error + int \<Rightarrow> int" where
  "score_value r = (case r of Inl e \<Rightarrow> 0 | Inr v \<Rightarrow> v)"

definition total :: "player \<Rightarrow> int" where
  "total p = score_value (score p 0)"

text \<open>
  The rendering in the words of the specification: one line for every player, in
  descending order of the total score with equal scores in registration order, each
  line with the player's place, name and total; the place is the index of the player's
  score among the distinct scores, from 1.
\<close>

definition place_of :: "player list \<Rightarrow> player \<Rightarrow> int" where
  "place_of ps p = 1 + int (card {k \<in> total ` set ps. total p < k})"

definition by_score :: "player list \<Rightarrow> player list" where
  "by_score ps = sort_key (\<lambda>p. - total p) ps"

definition spec_lines :: "player list \<Rightarrow> string list" where
  "spec_lines ps = map (\<lambda>p. format_line (place_of ps p) (name p) (total p)) (by_score ps)"

text \<open>The attribute names a new \<^verbatim>\<open>Players\<close> object has before any player is added.\<close>

definition reserved :: "string list \<Rightarrow> string set" where
  "reserved builtin = set builtin \<union> set CLASS_ATTRIBUTES \<union> set INSTANCE_ATTRIBUTES"

text \<open>
  The loop of \<^verbatim>\<open>_get_leaderboard\<close> in closed form: the list cut into its maximal runs
  of equal keys, numbered from \<open>pos\<close> on.
\<close>

function groups :: "(int \<times> player) list \<Rightarrow> int \<Rightarrow> (int \<times> place) list" where
  "groups [] pos = []"
| "groups ((s, p) # rest) pos =
     (pos, make_place (p # map snd (takeWhile (\<lambda>kp. s = fst kp) rest)) pos s)
       # groups (dropWhile (\<lambda>kp. s = fst kp) rest) (pos + 1)"
  by pat_completeness auto
termination
  by (relation "measure (\<lambda>(kps, pos). length kps)")
     (auto simp: length_dropWhile_le le_imp_less_Suc)

section \<open>Concrete inputs\<close>

text \<open>
  The message dictionary of tests/test_game.py, a random source that leaves every list
  as it is, the deck of the first game of the tests once the card on top is the only
  one left, and a game of one player and one round on that deck.
\<close>

definition MESSAGE :: messages where
  "MESSAGE =
     [(''WELCOME'', [''Welcome.'']),
      (''ROUND START'', [''Round $current_round.'']),
      (''ROUND END'', [''$round_winner won the round.'']),
      (''ROUND END TIE'', [''Round was a tie.'']),
      (''TURN START'', [''$current_player_name turn.'']),
      (''FALSE TURN END'', [''Negative, $current_player_name drew $current_card bringing score to $current_player_score.'']),
      (''TRUE TURN END'', [''Positive, $current_player_name drew $current_card bringing score to $current_player_score.'']),
      (''GAME OVER TIE'', [''Game was a tie.'']),
      (''GAME OVER'', [''Game over, $game_winner won.'']),
      (''EMPTY DECK'', [''Deck empty.''])]"

definition keep_order :: shuffler where
  "keep_order k xs = xs"

definition one_card_deck :: deck where
  "one_card_deck = \<lparr>cards = [\<lparr>suit = Spades, rank = R10\<rparr>], current_card = 0, rand = 0\<rparr>"

definition last_round_game :: game where
  "last_round_game =
     \<lparr>message = MESSAGE, deck = one_card_deck,
      players = \<lparr>players_list = [\<lparr>name = ''Berkelly'', hand = []\<rparr>], current_player = 0\<rparr>,
      current_round = 1, is_active = True, max_rounds = 1, out = []\<rparr>"

text \<open>
  The hand of tests/test_player.py: King of Clubs, then 8 of Hearts, with total 76,
  round scores 52 and 24, and 0 for round 3.
\<close>

definition hand_76 :: player where
  "hand_76 = \<lparr>name = ''Berkelly'',
     hand = [\<lparr>suit = Clubs, rank = King\<rparr>, \<lparr>suit = Hearts, rank = R8\<rparr>]\<rparr>"

text \<open>
  The players at the end of the fifth game of tests/test_game.py: Berkelly with 29
  points, Cez and Tonto with 70 each.
\<close>

definition final_players :: players where
  "final_players =
     \<lparr>players_list =
        [\<lparr>name = ''Berkelly'', hand = [\<lparr>suit = Spades, rank = R10\<rparr>,
           \<lparr>suit = Spades, rank = King\<rparr>, \<lparr>suit = Diamonds, rank = R3\<rparr>]\<rparr>,
         \<lparr>name = ''Cez'', hand = [\<lparr>suit = Diamonds, rank = R3\<rparr>,
           \<lparr>suit = Clubs, rank = Ace\<rparr>, \<lparr>suit = Spades, rank = R8\<rparr>]\<rparr>,
         \<lparr>name = ''Tonto'', hand = [\<lparr>suit = Diamonds, rank = R5\<rparr>,
           \<lparr>suit = Clubs, rank = R9\<rparr>, \<lparr>suit = Clubs, rank = R6\<rparr>]\<rparr>],
      current_player = 0\<rparr>"

text \<open>
  The three players of the last leaderboard of tests/test_player.py (one winner, and
  two players tied for the second place), and the players at the end of the fourth game
  of tests/test_game.py, whose totals all differ.
\<close>

definition three_players :: players where
  "three_players =
     \<lparr>players_list =
        [\<lparr>name = ''Berkelly'', hand = [\<lparr>suit = Clubs, rank = Ace\<rparr>]\<rparr>,
         \<lparr>name = ''Cez'', hand = [\<lparr>suit = Spades, rank = R10\<rparr>]\<rparr>,
         \<lparr>name = ''Tonto'', hand = [\<lparr>suit = Diamonds, rank = R5\<rparr>]\<rparr>],
      current_player = 0\<rparr>"

definition distinct_players :: players where
  "distinct_players =
     \<lparr>players_list =
        [\<lparr>name = ''Berkelly'', hand = [\<lparr>suit = Spades, rank = R10\<rparr>,
           \<lparr>suit = Spades, rank = R6\<rparr>, \<lparr>suit = Hearts, rank = R7\<rparr>]\<rparr>,
         \<lparr>name = ''Cez'', hand = [\<lparr>suit = Hearts, rank = Queen\<rparr>,
           \<lparr>suit = Diamonds, rank = R5\<rparr>, \<lparr>suit = Hearts, rank = R4\<rparr>]\<rparr>,
         \<lparr>name = ''Tonto'', hand = [\<lparr>suit = Clubs, rank = Jack\<rparr>,
           \<lparr>suit = Spades, rank = R9\<rparr>, \<lparr>suit = Hearts, rank = R6\<rparr>]\<rparr>],
      current_player = 0\<rparr>"



text \<open>
  The fifth game of tests/test_game.py: its deck (the top is the last card), the game
  the constructor builds from it, and the game as it stands when the third round
  starts, with the display emptied.
\<close>

definition fifth_deck :: deck where
  "fifth_deck =
     \<lparr>cards = [\<lparr>suit = Clubs, rank = R6\<rparr>, \<lparr>suit = Spades, rank = R8\<rparr>,
        \<lparr>suit = Diamonds, rank = R3\<rparr>, \<lparr>suit = Clubs, rank = R9\<rparr>,
        \<lparr>suit = Clubs, rank = Ace\<rparr>, \<lparr>suit = Spades, rank = King\<rparr>,
        \<lparr>suit = Diamonds, rank = R5\<rparr>, \<lparr>suit = Diamonds, rank = R3\<rparr>,
        \<lparr>suit = Spades, rank = R10\<rparr>],
      current_card = 0, rand = 0\<rparr>"

definition fifth_game :: game where
  "fifth_game =
     \<lparr>message = MESSAGE, deck = fifth_deck,
      players = \<lparr>players_list = [\<lparr>name = ''Berkelly'', hand = []\<rparr>,
         \<lparr>name = ''Cez'', hand = []\<rparr>, \<lparr>name = ''Tonto'', hand = []\<rparr>], current_player = 0\<rparr>,
      current_round = 1, is_active = True, max_rounds = 3, out = []\<rparr>"

definition third_round_game :: game where
  "third_round_game =
     \<lparr>message = MESSAGE,
      deck = \<lparr>cards = [\<lparr>suit = Clubs, rank = R6\<rparr>, \<lparr>suit = Spades, rank = R8\<rparr>,
         \<lparr>suit = Diamonds, rank = R3\<rparr>], current_card = 0, rand = 0\<rparr>,
      players = \<lparr>players_list =
        [\<lparr>name = ''Berkelly'', hand = [\<lparr>suit = Spades, rank = R10\<rparr>,
           \<lparr>suit = Spades, rank = King\<rparr>]\<rparr>,
         \<lparr>name = ''Cez'', hand = [\<lparr>suit = Diamonds, rank = R3\<rparr>,
           \<lparr>suit = Clubs, rank = Ace\<rparr>]\<rparr>,
         \<lparr>name = ''Tonto'', hand = [\<lparr>suit = Diamonds, rank = R5\<rparr>,
           \<lparr>suit = Clubs, rank = R9\<rparr>]\<rparr>], current_player = 0\<rparr>,
      current_round = 3, is_active = True, max_rounds = 3, out = []\<rparr>"

section \<open>Properties of the score\<close>

lemma score_zero: "score p 0 = Inr (sum_list (map card_score (hand p)))"
  by (simp add: score_def)

lemma score_in_hand:
  assumes "0 < r" and "r \<le> int (length (hand p))"
  shows "score p r = Inr (card_score (hand p ! nat (r - 1)))"
  using assms by (simp add: score_def getitem_def)

lemma score_beyond_hand:
  assumes "int (length (hand p)) < r"
  shows "score p r = Inr 0"
proof -
  from assms have "r \<noteq> 0" by linarith
  with assms show ?thesis by (simp add: score_def)
qed

lemma map_from_one:
  assumes "length xs = n" and "\<And>i. i < n \<Longrightarrow> g (Suc i) = f (xs ! i)"
  shows "map g [1..<Suc n] = map f xs"
  using assms by (auto intro!: nth_equalityI simp del: upt_Suc)

lemma score_rounds_list:
  "map (\<lambda>r. score p (int r)) [1..<Suc (length (hand p))] =
   map (\<lambda>c. Inr (card_score c)) (hand p)"
proof (rule map_from_one)
  show "length (hand p) = length (hand p)" ..
next
  fix i
  assume "i < length (hand p)"
  then show "score p (int (Suc i)) = Inr (card_score (hand p ! i))"
    using score_in_hand [of "int (Suc i)" p] by simp
qed

lemma score_rounds_sum:
  "(\<Sum>r\<leftarrow>[1..<Suc (length (hand p))]. score_value (score p (int r))) =
   sum_list (map card_score (hand p))"
proof -
  have "map (\<lambda>r. score_value (score p (int r))) [1..<Suc (length (hand p))] =
        map score_value (map (\<lambda>r. score p (int r)) [1..<Suc (length (hand p))])"
    by (simp add: comp_def)
  also have "\<dots> = map card_score (hand p)"
    by (simp only: score_rounds_list) (simp add: comp_def score_value_def)
  finally show ?thesis by simp
qed

text \<open>
  Claim C6. For every player, \<^verbatim>\<open>score(0)\<close> and \<^verbatim>\<open>score()\<close> are the sum of the card
  scores over the whole hand; the scores of the rounds 1 .. hand length are the scores
  of the cards in draw order, none of them raises, and their sum is \<^verbatim>\<open>score(0)\<close>; for
  every \<open>r > 0\<close>, \<^verbatim>\<open>score(r)\<close> is the score of the \<open>r\<close>-th drawn card when \<open>r\<close> is at
  most the hand length, and 0 when \<open>r\<close> exceeds the hand length.
\<close>

theorem score_total_and_rounds:
  "score p 0 = Inr (sum_list (map card_score (hand p)))
   \<and> score_default p = Inr (sum_list (map card_score (hand p)))
   \<and> map (\<lambda>r. score p (int r)) [1..<Suc (length (hand p))] =
       map (\<lambda>c. Inr (card_score c)) (hand p)
   \<and> score p 0 = Inr (\<Sum>r\<leftarrow>[1..<Suc (length (hand p))]. score_value (score p (int r)))
   \<and> (\<forall>r. 0 < r \<and> r \<le> int (length (hand p)) \<longrightarrow>
          score p r = Inr (card_score (hand p ! nat (r - 1))))
   \<and> (\<forall>r. int (length (hand p)) < r \<longrightarrow> score p r = Inr 0)"
proof -
  have "score p 0 = Inr (\<Sum>r\<leftarrow>[1..<Suc (length (hand p))]. score_value (score p (int r)))"
    by (simp only: score_rounds_sum score_zero)
  then show ?thesis
    using score_zero [of p] score_rounds_list [of p] score_in_hand [of _ p]
      score_beyond_hand [of p]
    by (simp add: score_default_def)
qed

theorem score_total_and_rounds_witness:
  "score hand_76 0 = Inr 76 \<and> score hand_76 1 = Inr 52 \<and> score hand_76 2 = Inr 24
   \<and> score hand_76 3 = Inr 0"
proof -
  have len: "int (length (hand hand_76)) = 2"
    by (simp add: hand_76_def)
  have in_hand: "\<And>r. 0 < r \<and> r \<le> 2 \<longrightarrow> score hand_76 r = Inr (card_score (hand hand_76 ! nat (r - 1)))"
    and beyond: "\<And>r. 2 < r \<longrightarrow> score hand_76 r = Inr 0"
    and total: "score hand_76 0 = Inr (sum_list (map card_score (hand hand_76)))"
    using score_total_and_rounds [of hand_76] unfolding len by blast+
  have "score hand_76 1 = Inr 52"
    using in_hand [of 1] by (simp add: hand_76_def card_score_def)
  moreover have "score hand_76 2 = Inr 24"
    using in_hand [of 2] by (simp add: hand_76_def card_score_def)
  moreover have "score hand_76 3 = Inr 0"
    using beyond [of 3] by simp
  moreover have "score hand_76 0 = Inr 76"
    using total by (simp add: hand_76_def card_score_def)
  ultimately show ?thesis by simp
qed

section \<open>Construction of the players\<close>

lemma hasattr_iff:
  "hasattr builtin self nm = (nm \<in> reserved builtin \<or> nm \<in> set (map name (players_list self)))"
  by (auto simp: hasattr_def reserved_def)

lemma Players_loop_ok:
  assumes "distinct names"
    and "set names \<inter> (reserved builtin \<union> set (map name (players_list self))) = {}"
  shows "Players_loop builtin self names =
         Inr (self\<lparr>players_list := players_list self @ map Player names\<rparr>)"
  using assms
proof (induction names arbitrary: self)
  case Nil
  then show ?case by simp
next
  case (Cons nm names)
  let ?self = "self\<lparr>players_list := players_list self @ [Player nm]\<rparr>"
  from Cons.prems have no: "\<not> hasattr builtin self nm"
    by (auto simp: hasattr_iff)
  from Cons.prems have "distinct names"
    and "set names \<inter> (reserved builtin \<union> set (map name (players_list ?self))) = {}"
    by (auto simp: Player_def)
  from Cons.IH [OF this] no show ?case by simp
qed

lemma Players_loop_fails:
  assumes "\<not> (distinct names
    \<and> set names \<inter> (reserved builtin \<union> set (map name (players_list self))) = {})"
  shows "\<exists>x \<in> set names. Players_loop builtin self names = Inl (InvalidPlayerError x)"
  using assms
proof (induction names arbitrary: self)
  case Nil
  then show ?case by simp
next
  case (Cons nm names)
  let ?self = "self\<lparr>players_list := players_list self @ [Player nm]\<rparr>"
  show ?case
  proof (cases "hasattr builtin self nm")
    case True
    then show ?thesis by simp
  next
    case False
    with Cons.prems have "\<not> (distinct names
      \<and> set names \<inter> (reserved builtin \<union> set (map name (players_list ?self))) = {})"
      by (auto simp: hasattr_iff Player_def)
    from Cons.IH [OF this] False show ?thesis by auto
  qed
qed

lemma Players_ok:
  assumes "distinct names" and "set names \<inter> reserved builtin = {}"
  shows "Players builtin names = Inr \<lparr>players_list = map Player names, current_player = 0\<rparr>"
  using Players_loop_ok [of names builtin "\<lparr>players_list = [], current_player = 0\<rparr>"] assms
  by (simp add: Players_def)

lemma Players_fails:
  assumes "\<not> distinct names \<or> set names \<inter> reserved builtin \<noteq> {}"
  shows "\<exists>x \<in> set names. Players builtin names = Inl (InvalidPlayerError x)"
  using Players_loop_fails [of names builtin "\<lparr>players_list = [], current_player = 0\<rparr>"] assms
  by (auto simp add: Players_def)

text \<open>
  Claim C10. \<^verbatim>\<open>Players.__init__\<close> raises \<^verbatim>\<open>InvalidPlayerError\<close> for every list that
  holds a name of a method of the class, of one of its instance attributes or of a
  built-in attribute, whether or not a name is repeated: so for "first", "second",
  "third" and "reset", and some list without a repeated name is refused.
\<close>

theorem Players_attribute_collision:
  "(\<forall>names nm. nm \<in> set names \<and>
        (nm \<in> set CLASS_ATTRIBUTES \<or> nm \<in> set INSTANCE_ATTRIBUTES \<or> nm \<in> set builtin) \<longrightarrow>
        (\<exists>x \<in> set names. Players builtin names = Inl (InvalidPlayerError x)))
   \<and> Players builtin [''first''] = Inl (InvalidPlayerError ''first'')
   \<and> Players builtin [''second''] = Inl (InvalidPlayerError ''second'')
   \<and> Players builtin [''third''] = Inl (InvalidPlayerError ''third'')
   \<and> Players builtin [''reset''] = Inl (InvalidPlayerError ''reset'')
   \<and> (\<exists>names. distinct names \<and> (\<exists>x. Players builtin names = Inl (InvalidPlayerError x)))"
proof -
  have gen: "\<exists>x \<in> set names. Players builtin names = Inl (InvalidPlayerError x)"
    if "nm \<in> set names"
      and "nm \<in> set CLASS_ATTRIBUTES \<or> nm \<in> set INSTANCE_ATTRIBUTES \<or> nm \<in> set builtin"
    for names nm
  proof (rule Players_fails)
    from that have "nm \<in> set names \<inter> reserved builtin"
      by (auto simp: reserved_def)
    then show "\<not> distinct names \<or> set names \<inter> reserved builtin \<noteq> {}"
      by blast
  qed
  have one: "Players builtin [nm] = Inl (InvalidPlayerError nm)"
    if "nm \<in> set CLASS_ATTRIBUTES" for nm
    using that by (simp add: Players_def hasattr_def)
  have f: "Players builtin [''first''] = Inl (InvalidPlayerError ''first'')"
    by (rule one) (simp add: CLASS_ATTRIBUTES_def)
  have s: "Players builtin [''second''] = Inl (InvalidPlayerError ''second'')"
    by (rule one) (simp add: CLASS_ATTRIBUTES_def)
  have t: "Players builtin [''third''] = Inl (InvalidPlayerError ''third'')"
    by (rule one) (simp add: CLASS_ATTRIBUTES_def)
  have r: "Players builtin [''reset''] = Inl (InvalidPlayerError ''reset'')"
    by (rule one) (simp add: CLASS_ATTRIBUTES_def)
  have "distinct [''first''] \<and> (\<exists>x. Players builtin [''first''] = Inl (InvalidPlayerError x))"
    using f by simp
  then have ex: "\<exists>names. distinct names \<and> (\<exists>x. Players builtin names = Inl (InvalidPlayerError x))"
    by blast
  from gen f s t r ex show ?thesis by blast
qed

theorem Players_attribute_collision_witness:
  "Players [] [''Berkelly'', ''_players''] = Inl (InvalidPlayerError ''_players'')"
proof -
  have "''_players'' \<in> set [''Berkelly'', ''_players''] \<and>
        (''_players'' \<in> set CLASS_ATTRIBUTES \<or> ''_players'' \<in> set INSTANCE_ATTRIBUTES \<or> ''_players'' \<in> set [])"
    by (simp add: INSTANCE_ATTRIBUTES_def)
  with Players_attribute_collision [of "[]"]
  have "\<exists>x \<in> set [''Berkelly'', ''_players'']. Players [] [''Berkelly'', ''_players''] = Inl (InvalidPlayerError x)"
    by blast
  moreover have "Players [] [''Berkelly'', ''_players''] \<noteq> Inl (InvalidPlayerError ''Berkelly'')"
    by (simp add: Players_def hasattr_def CLASS_ATTRIBUTES_def INSTANCE_ATTRIBUTES_def Player_def)
  ultimately show ?thesis by auto
qed

section \<open>Construction of the game\<close>

lemma Game_result:
  "Game shuf builtin conf names deck_arg mr message_arg =
     (if mr < 1 then Inl (GameError ''Invalid max number of rounds.'')
      else if names = [] then Inl (GameError ''Invalid number of players.'')
      else if (message_arg = None \<or> message_arg = Some []) \<and> conf = None
        then Inl (GameError ''Could not open messages config file.'')
      else case Players builtin names of
             Inl e \<Rightarrow> Inl e
           | Inr ps \<Rightarrow>
               Inr \<lparr>message = (case message_arg of
                                None \<Rightarrow> the conf
                              | Some m \<Rightarrow> if m \<noteq> [] then m else the conf),
                    deck = (case deck_arg of
                              None \<Rightarrow> shuffle shuf (Deck False 0)
                            | Some d0 \<Rightarrow> if deck_bool d0 then d0 else shuffle shuf (Deck False 0)),
                    players = ps, current_round = 1, is_active = True, max_rounds = mr,
                    out = []\<rparr>)"
  by (auto simp: Game_def read_conf_def Let_def split: option.splits sum.splits)

text \<open>
  Claim C9, as the code has it. The construction of a game fails, with no game built,
  exactly when the round limit is below 1, the list of names is empty, no non-empty
  message dictionary is passed and the configuration file cannot be opened, a name is
  repeated, or a name is an attribute the \<^verbatim>\<open>Players\<close> object already has. Otherwise
  it succeeds, with the round counter 1, the game active, the round limit as passed
  and one player with an empty hand for each name, in order.
\<close>

theorem Game_construction:
  "((\<exists>e. Game shuf builtin conf names deck_arg mr message_arg = Inl e) =
      (mr < 1 \<or> names = []
       \<or> ((message_arg = None \<or> message_arg = Some []) \<and> conf = None)
       \<or> \<not> distinct names \<or> set names \<inter> reserved builtin \<noteq> {}))
   \<and> (\<forall>g. Game shuf builtin conf names deck_arg mr message_arg = Inr g \<longrightarrow>
          current_round g = 1 \<and> is_active g \<and> max_rounds g = mr
          \<and> players_list (players g) = map Player names \<and> out g = [])"
proof (cases "distinct names \<and> set names \<inter> reserved builtin = {}")
  case True
  then have "Players builtin names = Inr \<lparr>players_list = map Player names, current_player = 0\<rparr>"
    by (simp add: Players_ok)
  with True show ?thesis
    by (auto simp: Game_result)
next
  case False
  then have "\<exists>x \<in> set names. Players builtin names = Inl (InvalidPlayerError x)"
    by (intro Players_fails) blast
  then obtain x where "Players builtin names = Inl (InvalidPlayerError x)"
    by blast
  with False show ?thesis
    by (auto simp: Game_result)
qed

lemma MESSAGE_nonempty: "MESSAGE \<noteq> []"
  by (simp add: MESSAGE_def)

theorem Game_construction_witness:
  "(case Game keep_order [] None [''Berkelly''] (Some one_card_deck) 1 (Some MESSAGE) of
      Inl e \<Rightarrow> False
    | Inr g \<Rightarrow> current_round g = 1 \<and> is_active g \<and> max_rounds g = 1
        \<and> players_list (players g) = [\<lparr>name = ''Berkelly'', hand = []\<rparr>])"
proof -
  have "set [''Berkelly''] \<inter> reserved [] = {}"
    by (simp add: reserved_def CLASS_ATTRIBUTES_def INSTANCE_ATTRIBUTES_def)
  with Game_construction [of keep_order "[]" None "[''Berkelly'']" "Some one_card_deck" 1
      "Some MESSAGE"]
  show ?thesis
    by (auto simp: Player_def MESSAGE_nonempty split: sum.splits)
qed

theorem Game_construction_counterexample:
  "Game keep_order [] (Some []) [''first''] None 3 None = Inl (InvalidPlayerError ''first'')
   \<and> \<not> (3 :: int) < 1 \<and> [''first''] \<noteq> [] \<and> distinct [''first'']
   \<and> Game keep_order [] None [''Berkelly''] None 3 None =
       Inl (GameError ''Could not open messages config file.'')
   \<and> distinct [''Berkelly'']"
  by (simp add: Game_result Players_def hasattr_def CLASS_ATTRIBUTES_def)

section \<open>The end of a round\<close>

text \<open>
  Claim C4, as the code has it. A round that ends has incremented the round counter by
  one, whether or not the limit was reached; the game is active afterwards exactly
  when it was active and the round number was below the limit, so a round number at or
  above the limit makes the game inactive; the limit itself does not change.
\<close>

theorem next_round_counter:
  "next_round shuf g = Inr g1 \<Longrightarrow>
     current_round g1 = current_round g + 1
     \<and> is_active g1 = (is_active g \<and> current_round g < max_rounds g)
     \<and> (max_rounds g \<le> current_round g \<longrightarrow> \<not> is_active g1)
     \<and> max_rounds g1 = max_rounds g"
  using next_round_fields [of shuf g g1] by auto

lemma last_round_game_next:
  "next_round keep_order last_round_game =
     Inr \<lparr>message = MESSAGE, deck = \<lparr>cards = [], current_card = 0, rand = 0\<rparr>,
      players = \<lparr>players_list = [\<lparr>name = ''Berkelly'', hand = [\<lparr>suit = Spades, rank = R10\<rparr>]\<rparr>],
                 current_player = 0\<rparr>,
      current_round = 2, is_active = False, max_rounds = 1,
      out = [TURN_START ''Berkelly'', TURN_END True ''Berkelly'' \<lparr>suit = Spades, rank = R10\<rparr> 10]\<rparr>"
  by code_simp

theorem next_round_counter_witness:
  "map_sum id (\<lambda>g. (current_round g, is_active g, max_rounds g))
     (next_round keep_order last_round_game) = Inr (2, False, 1)"
  using next_round_counter [OF last_round_game_next]
  by (simp add: last_round_game_next)

text \<open>
  The claim as stated fails in the last round: the limit is reached, the game becomes
  inactive, and the counter is incremented all the same.
\<close>

theorem next_round_counter_counterexample:
  "max_rounds last_round_game \<le> current_round last_round_game
   \<and> map_sum id (\<lambda>g. (current_round g, is_active g)) (next_round keep_order last_round_game)
       = Inr (current_round last_round_game + 1, False)"
  by (simp add: last_round_game_next) (simp add: last_round_game_def)

section \<open>The leaderboard\<close>

lemma dict_set_fresh:
  assumes "k \<notin> fst ` set d"
  shows "dict_set d k v = d @ [(k, v)]"
  using assms by (induction d) auto

lemma leaderboard_loop_groups:
  assumes "\<forall>k \<in> fst ` set d. k < pos"
  shows "leaderboard_loop kps pos d = d @ groups kps pos"
  using assms
proof (induction kps pos d rule: leaderboard_loop.induct)
  case (1 pos l_b_dict)
  then show ?case by simp
next
  case (2 s player rest pos l_b_dict)
  let ?lis = "player # map snd (takeWhile (\<lambda>kp. s = fst kp) rest)"
  let ?rem = "dropWhile (\<lambda>kp. s = fst kp) rest"
  let ?d = "dict_set l_b_dict pos (make_place ?lis pos s)"
  have inner: "inner_loop s ((s, player) # rest) [] = (?lis, ?rem)"
    by (simp add: inner_loop_eq)
  from "2.prems" have fresh: "pos \<notin> fst ` set l_b_dict"
    by auto
  then have d: "?d = l_b_dict @ [(pos, make_place ?lis pos s)]"
    by (rule dict_set_fresh)
  with "2.prems" have "\<forall>k \<in> fst ` set ?d. k < pos + 1"
    by auto
  with "2.IH" [OF inner [symmetric]]
  have "leaderboard_loop ?rem (pos + 1) ?d = ?d @ groups ?rem (pos + 1)"
    by blast
  with inner d show ?case
    by simp
qed

lemma get_leaderboard_groups:
  "get_leaderboard self rn =
     (case keyed rn (players_list self) of
        Inl e \<Rightarrow> Inl e
      | Inr kps \<Rightarrow> Inr (groups (sorted_reverse kps) 1))"
  by (simp add: get_leaderboard_def leaderboard_loop_groups split: sum.splits)

subsection \<open>What the groups hold\<close>

lemma groups_members: "concat (map (pl_players \<circ> snd) (groups kps pos)) = map snd kps"
proof (induction kps pos rule: groups.induct)
  case (1 pos)
  then show ?case by simp
next
  case (2 s p rest pos)
  have "map snd (takeWhile (\<lambda>kp. s = fst kp) rest) @ map snd (dropWhile (\<lambda>kp. s = fst kp) rest)
        = map snd rest"
    by (simp flip: map_append)
  with 2 show ?case
    by (simp add: make_place_def)
qed

lemma groups_keys:
  "map fst (groups kps pos) = map (\<lambda>i. pos + int i) [0..<length (groups kps pos)]"
proof (induction kps pos rule: groups.induct)
  case (1 pos)
  then show ?case by simp
next
  case (2 s p rest pos)
  let ?g = "groups (dropWhile (\<lambda>kp. s = fst kp) rest) (pos + 1)"
  have "[0..<Suc (length ?g)] = 0 # map Suc [0..<length ?g]"
    by (simp add: upt_conv_Cons map_Suc_upt del: upt_Suc)
  with 2 show ?case
    by (simp add: comp_def del: upt_Suc)
qed

lemma groups_entry:
  assumes "(k, pl) \<in> set (groups kps pos)"
  shows "pl = make_place (pl_players pl) k (pl_score pl) \<and> pl_players pl \<noteq> []"
  using assms
  by (induction kps pos rule: groups.induct) (auto simp: make_place_def)

lemma groups_member_key:
  assumes "(k, pl) \<in> set (groups kps pos)" and "p \<in> set (pl_players pl)"
  shows "(pl_score pl, p) \<in> set kps"
  using assms
proof (induction kps pos rule: groups.induct)
  case (1 pos)
  then show ?case by simp
next
  case (2 s q rest pos)
  show ?case
  proof (cases "(k, pl) = (pos, make_place (q # map snd (takeWhile (\<lambda>kp. s = fst kp) rest)) pos s)")
    case True
    with "2.prems" have "p = q \<or> p \<in> snd ` set (takeWhile (\<lambda>kp. s = fst kp) rest)"
      and "pl_score pl = s"
      by (auto simp: make_place_def)
    then show ?thesis
      by (auto dest!: set_takeWhileD)
  next
    case False
    moreover from "2.prems"(1)
    have "(k, pl) = (pos, make_place (q # map snd (takeWhile (\<lambda>kp. s = fst kp) rest)) pos s)
          \<or> (k, pl) \<in> set (groups (dropWhile (\<lambda>kp. s = fst kp) rest) (pos + 1))"
      by simp
    ultimately have "(k, pl) \<in> set (groups (dropWhile (\<lambda>kp. s = fst kp) rest) (pos + 1))"
      by blast
    from "2.IH" [OF this "2.prems"(2)] show ?thesis
      by (auto dest: set_dropWhileD)
  qed
qed

lemma groups_scores: "set (map (pl_score \<circ> snd) (groups kps pos)) = fst ` set kps"
proof (induction kps pos rule: groups.induct)
  case (1 pos)
  then show ?case by simp
next
  case (2 s p rest pos)
  have "fst ` set rest = fst ` set (takeWhile (\<lambda>kp. s = fst kp) rest @ dropWhile (\<lambda>kp. s = fst kp) rest)"
    by simp
  also have "\<dots> \<subseteq> insert s (fst ` set (dropWhile (\<lambda>kp. s = fst kp) rest))"
    by (auto simp del: takeWhile_dropWhile_id dest!: set_takeWhileD)
  finally have "insert s (fst ` set rest) = insert s (fst ` set (dropWhile (\<lambda>kp. s = fst kp) rest))"
    by (auto dest: set_dropWhileD)
  with 2 show ?case
    by (simp add: make_place_def)
qed

lemma dropWhile_below:
  assumes "sorted_wrt (\<ge>) ((s :: int) # map fst rest)"
    and "kp \<in> set (dropWhile (\<lambda>kp. s = fst kp) rest)"
  shows "fst kp < s"
  using assms
proof (induction rest)
  case Nil
  then show ?case by simp
next
  case (Cons a rest)
  show ?case
  proof (cases "s = fst a")
    case True
    with Cons show ?thesis by auto
  next
    case False
    with Cons.prems have "fst a < s" and "\<forall>x \<in> set rest. fst x \<le> fst a"
      by auto
    with Cons.prems False show ?thesis by auto
  qed
qed

lemma groups_descending:
  assumes "sorted_wrt (\<ge>) (map fst kps)"
  shows "sorted_wrt (>) (map (pl_score \<circ> snd) (groups kps pos))"
  using assms
proof (induction kps pos rule: groups.induct)
  case (1 pos)
  then show ?case by simp
next
  case (2 s p rest pos)
  let ?rem = "dropWhile (\<lambda>kp. s = fst kp) rest"
  from "2.prems" have "sorted_wrt (\<ge>) (map fst ?rem)"
    by (simp add: sorted_wrt_map)
  then have IH: "sorted_wrt (>) (map (pl_score \<circ> snd) (groups ?rem (pos + 1)))"
    by (rule "2.IH")
  have "\<forall>x \<in> set (map (pl_score \<circ> snd) (groups ?rem (pos + 1))). x < s"
    unfolding groups_scores using dropWhile_below [of s rest] "2.prems" by auto
  with IH show ?case
    by (simp add: make_place_def comp_def)
qed

lemma descending_distinct:
  assumes "sorted_wrt (>) (xs :: int list)"
  shows "distinct xs"
  using assms by (induction xs) auto

lemma groups_count:
  assumes "sorted_wrt (\<ge>) (map fst kps)"
  shows "length (groups kps pos) = card (fst ` set kps)"
proof -
  have "distinct (map (pl_score \<circ> snd) (groups kps pos))"
    using groups_descending [OF assms, of pos] by (rule descending_distinct)
  then have "card (set (map (pl_score \<circ> snd) (groups kps pos))) = length (groups kps pos)"
    using distinct_card [of "map (pl_score \<circ> snd) (groups kps pos)"] by simp
  then show ?thesis
    by (simp only: groups_scores)
qed

subsection \<open>The keys and the sort\<close>

lemma score_nonneg:
  assumes "0 \<le> rn"
  shows "score p rn = Inr (score_value (score p rn))"
proof -
  consider "rn = 0" | "0 < rn" "rn \<le> int (length (hand p))" | "int (length (hand p)) < rn"
    using assms by linarith
  then show ?thesis
  proof cases
    case 1
    then show ?thesis by (simp add: score_zero score_value_def)
  next
    case 2
    then show ?thesis by (simp add: score_in_hand score_value_def)
  next
    case 3
    then show ?thesis by (simp add: score_beyond_hand score_value_def)
  qed
qed

lemma keyed_nonneg:
  assumes "0 \<le> rn"
  shows "keyed rn ps = Inr (map (\<lambda>p. (score_value (score p rn), p)) ps)"
proof (induction ps)
  case Nil
  then show ?case by simp
next
  case (Cons p ps)
  from score_nonneg [OF assms, of p] obtain k where "score p rn = Inr k"
    by blast
  with Cons show ?case
    by (simp add: score_value_def)
qed

lemma keyed_Inr:
  assumes "keyed rn ps = Inr kps"
  shows "map snd kps = ps \<and> (\<forall>kp \<in> set kps. score (snd kp) rn = Inr (fst kp))"
  using assms
  by (induction ps arbitrary: kps) (auto split: sum.splits)

lemma sorted_reverse_mset: "mset (sorted_reverse kps) = mset kps"
  by (simp add: sorted_reverse_def)

lemma sorted_reverse_set: "set (sorted_reverse kps) = set kps"
  by (simp add: sorted_reverse_def)

lemma sorted_negated:
  assumes "sorted (map (\<lambda>x. - f x) xs)"
  shows "sorted_wrt (\<ge>) (map (f :: 'a \<Rightarrow> int) xs)"
  using assms by (induction xs) auto

lemma sorted_reverse_descending: "sorted_wrt (\<ge>) (map fst (sorted_reverse kps))"
  unfolding sorted_reverse_def by (rule sorted_negated) (rule sorted_sort_key)

lemma sorted_reverse_stable:
  "filter (\<lambda>kp. fst kp = k) (sorted_reverse kps) = filter (\<lambda>kp. fst kp = k) kps"
proof -
  have "filter (\<lambda>kp. - fst kp = - k) (sort_key (\<lambda>kp. - fst kp) kps)
        = filter (\<lambda>kp. - fst kp = - k) kps"
    by (rule sort_key_stable)
  then show ?thesis
    by (simp add: sorted_reverse_def)
qed

lemma filter_by_key:
  assumes "\<forall>kp \<in> set kps. g (snd kp) = Inr (fst kp)"
  shows "filter (\<lambda>p. g p = Inr k) (map snd kps) = map snd (filter (\<lambda>kp. fst kp = k) kps)"
  using assms by (induction kps) auto

subsection \<open>The leaderboard of a set of players\<close>

lemma get_leaderboard_Inr:
  assumes "get_leaderboard self rn = Inr lb"
  obtains kps where "keyed rn (players_list self) = Inr kps"
    and "lb = groups (sorted_reverse kps) 1"
  using assms by (auto simp: get_leaderboard_groups split: sum.splits)

lemma get_leaderboard_nonneg:
  assumes "0 \<le> rn"
  shows "\<exists>lb. get_leaderboard self rn = Inr lb"
  by (simp add: get_leaderboard_groups keyed_nonneg [OF assms])

text \<open>
  The code assumes round numbers from 1 (the comment in \<^verbatim>\<open>Player.score\<close>), with 0
  for the totals. A negative selector is read as an index from the end of the hand, and
  on a hand that is too short the leaderboard raises.
\<close>

lemma negative_selector:
  "get_leaderboard \<lparr>players_list = [Player ''Berkelly''], current_player = 0\<rparr> (- 1)
   = Inl IndexError"
  by (simp add: get_leaderboard_def score_def getitem_def Player_def)

lemma leaderboard_members:
  assumes "get_leaderboard self rn = Inr lb"
  shows "mset (concat (map (pl_players \<circ> snd) lb)) = mset (players_list self)"
proof -
  from assms obtain kps where k: "keyed rn (players_list self) = Inr kps"
    and lb: "lb = groups (sorted_reverse kps) 1"
    by (rule get_leaderboard_Inr)
  have "mset (map snd (sorted_reverse kps)) = mset (map snd kps)"
    by (simp only: mset_map sorted_reverse_mset)
  with keyed_Inr [OF k] lb show ?thesis
    by (simp only: groups_members)
qed

lemma leaderboard_stable:
  assumes "get_leaderboard self rn = Inr lb"
  shows "filter (\<lambda>p. score p rn = Inr k) (concat (map (pl_players \<circ> snd) lb))
         = filter (\<lambda>p. score p rn = Inr k) (players_list self)"
proof -
  from assms obtain kps where k: "keyed rn (players_list self) = Inr kps"
    and lb: "lb = groups (sorted_reverse kps) 1"
    by (rule get_leaderboard_Inr)
  from keyed_Inr [OF k] have ps: "map snd kps = players_list self"
    and key: "\<forall>kp \<in> set kps. score (snd kp) rn = Inr (fst kp)"
    by simp_all
  from key have key': "\<forall>kp \<in> set (sorted_reverse kps). score (snd kp) rn = Inr (fst kp)"
    by (simp only: sorted_reverse_set)
  have "filter (\<lambda>p. score p rn = Inr k) (concat (map (pl_players \<circ> snd) lb))
        = filter (\<lambda>p. score p rn = Inr k) (map snd (sorted_reverse kps))"
    by (simp only: lb groups_members)
  also have "\<dots> = map snd (filter (\<lambda>kp. fst kp = k) (sorted_reverse kps))"
    using key' by (rule filter_by_key)
  also have "\<dots> = map snd (filter (\<lambda>kp. fst kp = k) kps)"
    by (simp only: sorted_reverse_stable)
  also have "\<dots> = filter (\<lambda>p. score p rn = Inr k) (map snd kps)"
    using key by (rule filter_by_key [symmetric])
  finally show ?thesis
    by (simp only: ps)
qed

lemma leaderboard_keys:
  assumes "get_leaderboard self rn = Inr lb"
  shows "map fst lb = map int [1..<Suc (length lb)]"
proof -
  from assms obtain kps where lb: "lb = groups (sorted_reverse kps) 1"
    by (rule get_leaderboard_Inr)
  have "map fst lb = map (\<lambda>i. 1 + int i) [0..<length lb]"
    unfolding lb by (rule groups_keys)
  also have "\<dots> = map int (map Suc [0..<length lb])"
    by simp
  also have "map Suc [0..<length lb] = [1..<Suc (length lb)]"
    by (simp only: map_Suc_upt One_nat_def)
  finally show ?thesis .
qed

lemma leaderboard_entry:
  assumes "get_leaderboard self rn = Inr lb" and "(k, pl) \<in> set lb"
  shows "pl_place pl = k \<and> pl_players pl \<noteq> []
         \<and> (\<forall>p \<in> set (pl_players pl). p \<in> set (players_list self) \<and> score p rn = Inr (pl_score pl))
         \<and> pl_player pl = Some (hd (pl_players pl))
         \<and> pl_name pl = Some (name (hd (pl_players pl)))
         \<and> pl_names pl = map name (pl_players pl)
         \<and> pl_tie pl = (1 < length (pl_players pl))"
proof -
  from assms(1) obtain kps where k: "keyed rn (players_list self) = Inr kps"
    and lb: "lb = groups (sorted_reverse kps) 1"
    by (rule get_leaderboard_Inr)
  from assms(2) have e: "(k, pl) \<in> set (groups (sorted_reverse kps) 1)"
    by (simp only: lb)
  from groups_entry [OF e]
  have mk: "pl = make_place (pl_players pl) k (pl_score pl)" and ne: "pl_players pl \<noteq> []"
    by simp_all
  have member: "p \<in> set (players_list self) \<and> score p rn = Inr (pl_score pl)"
    if "p \<in> set (pl_players pl)" for p
  proof -
    from groups_member_key [OF e that] have in_kps: "(pl_score pl, p) \<in> set kps"
      by (simp only: sorted_reverse_set)
    then have "snd (pl_score pl, p) \<in> snd ` set kps"
      by (rule imageI)
    then have "p \<in> set (map snd kps)"
      by simp
    moreover from keyed_Inr [OF k] in_kps
    have "score (snd (pl_score pl, p)) rn = Inr (fst (pl_score pl, p))"
      by blast
    ultimately show ?thesis
      using keyed_Inr [OF k] by simp
  qed
  have "pl_place pl = k"
    by (subst mk) (simp add: make_place_def)
  moreover have "pl_player pl = Some (hd (pl_players pl))"
    by (subst mk) (simp add: make_place_def)
  moreover have "pl_name pl = Some (name (hd (pl_players pl)))"
    by (subst mk) (simp add: make_place_def)
  moreover have "pl_names pl = map name (pl_players pl)"
    by (subst mk) (simp add: make_place_def)
  moreover have "pl_tie pl = (1 < length (pl_players pl))"
    by (subst mk) (simp add: make_place_def)
  ultimately show ?thesis
    using ne member by blast
qed

lemma leaderboard_descending:
  assumes "get_leaderboard self rn = Inr lb"
  shows "sorted_wrt (>) (map (pl_score \<circ> snd) lb)"
proof -
  from assms obtain kps where lb: "lb = groups (sorted_reverse kps) 1"
    by (rule get_leaderboard_Inr)
  show ?thesis
    unfolding lb by (rule groups_descending) (rule sorted_reverse_descending)
qed

lemma leaderboard_scores:
  assumes "get_leaderboard self rn = Inr lb"
  shows "Inr ` set (map (pl_score \<circ> snd) lb) = (\<lambda>p. score p rn) ` set (players_list self)"
proof -
  from assms obtain kps where k: "keyed rn (players_list self) = Inr kps"
    and lb: "lb = groups (sorted_reverse kps) 1"
    by (rule get_leaderboard_Inr)
  from keyed_Inr [OF k] have ps: "set (players_list self) = snd ` set kps"
    and key: "\<forall>kp \<in> set kps. score (snd kp) rn = Inr (fst kp)"
    by (simp_all flip: set_map)
  have "Inr ` set (map (pl_score \<circ> snd) lb) = Inr ` fst ` set kps"
    by (simp only: lb groups_scores sorted_reverse_set)
  also have "\<dots> = (\<lambda>p. score p rn) ` snd ` set kps"
    using key by (force simp: image_iff)
  finally show ?thesis
    by (simp only: ps)
qed

lemma leaderboard_count:
  assumes "get_leaderboard self rn = Inr lb"
  shows "length lb = card ((\<lambda>p. score p rn) ` set (players_list self))"
proof -
  have "distinct (map (pl_score \<circ> snd) lb)"
    using leaderboard_descending [OF assms] by (rule descending_distinct)
  then have "length lb = card (set (map (pl_score \<circ> snd) lb))"
    using distinct_card [of "map (pl_score \<circ> snd) lb"] by simp
  also have "\<dots> = card ((Inr :: int \<Rightarrow> error + int) ` set (map (pl_score \<circ> snd) lb))"
    by (simp add: card_image)
  finally show ?thesis
    by (simp only: leaderboard_scores [OF assms])
qed

lemma tie_then_lower:
  assumes "get_leaderboard self rn = Inr lb"
    and "players_list self = [a, b, c] \<or> players_list self = [a, c, b]
         \<or> players_list self = [c, a, b]"
    and "score a rn = Inr x" and "score b rn = Inr x" and "score c rn = Inr y" and "y < x"
  shows "map (\<lambda>(k, pl). (k, pl_players pl)) lb = [(1, [a, b]), (2, [c])]"
  using assms
  by (auto simp: get_leaderboard_groups sorted_reverse_def make_place_def)

text \<open>
  Claim C2. For every set of players and every round selector (0 for the totals, or a
  round number), the leaderboard exists and: its groups, read in order, hold every
  player once; players with the same score stand in registration order (the sort is
  stable); the places are 1, 2, 3, ... by group index, whatever the sizes of the
  groups; every group is non-empty, its members all have the group's score, its
  representative is its first member and its tie flag says whether it has more than
  one member; the scores of the groups strictly decrease, so players with equal scores
  share a group; and there are as many places as distinct scores. Two players tied
  above a third give the places 1, 1, 2.
\<close>

theorem leaderboard_groups:
  assumes "0 \<le> rn"
  shows "\<exists>lb. get_leaderboard self rn = Inr lb
    \<and> mset (concat (map (pl_players \<circ> snd) lb)) = mset (players_list self)
    \<and> (\<forall>k. filter (\<lambda>p. score p rn = Inr k) (concat (map (pl_players \<circ> snd) lb))
            = filter (\<lambda>p. score p rn = Inr k) (players_list self))
    \<and> map fst lb = map int [1..<Suc (length lb)]
    \<and> (\<forall>(k, pl) \<in> set lb.
          pl_place pl = k \<and> pl_players pl \<noteq> []
          \<and> (\<forall>p \<in> set (pl_players pl).
                p \<in> set (players_list self) \<and> score p rn = Inr (pl_score pl))
          \<and> pl_player pl = Some (hd (pl_players pl))
          \<and> pl_name pl = Some (name (hd (pl_players pl)))
          \<and> pl_names pl = map name (pl_players pl)
          \<and> pl_tie pl = (1 < length (pl_players pl)))
    \<and> sorted_wrt (>) (map (pl_score \<circ> snd) lb)
    \<and> length lb = card ((\<lambda>p. score p rn) ` set (players_list self))
    \<and> (\<forall>a b c x y.
          (players_list self = [a, b, c] \<or> players_list self = [a, c, b]
           \<or> players_list self = [c, a, b])
          \<and> score a rn = Inr x \<and> score b rn = Inr x \<and> score c rn = Inr y \<and> y < x \<longrightarrow>
          map (\<lambda>(k, pl). (k, pl_players pl)) lb = [(1, [a, b]), (2, [c])])"
proof -
  from get_leaderboard_nonneg [OF assms] obtain lb where lb: "get_leaderboard self rn = Inr lb"
    by blast
  have "\<forall>(k, pl) \<in> set lb.
          pl_place pl = k \<and> pl_players pl \<noteq> []
          \<and> (\<forall>p \<in> set (pl_players pl).
                p \<in> set (players_list self) \<and> score p rn = Inr (pl_score pl))
          \<and> pl_player pl = Some (hd (pl_players pl))
          \<and> pl_name pl = Some (name (hd (pl_players pl)))
          \<and> pl_names pl = map name (pl_players pl)
          \<and> pl_tie pl = (1 < length (pl_players pl))"
    using leaderboard_entry [OF lb] by blast
  moreover have "\<forall>a b c x y.
          (players_list self = [a, b, c] \<or> players_list self = [a, c, b]
           \<or> players_list self = [c, a, b])
          \<and> score a rn = Inr x \<and> score b rn = Inr x \<and> score c rn = Inr y \<and> y < x \<longrightarrow>
          map (\<lambda>(k, pl). (k, pl_players pl)) lb = [(1, [a, b]), (2, [c])]"
    using tie_then_lower [OF lb] by blast
  ultimately show ?thesis
    using lb leaderboard_members [OF lb] leaderboard_stable [OF lb] leaderboard_keys [OF lb]
      leaderboard_descending [OF lb] leaderboard_count [OF lb]
    by blast
qed

lemma final_players_leaderboard:
  "map_sum id (map (\<lambda>(k, pl). (k, pl_names pl, pl_score pl, pl_tie pl)))
     (get_leaderboard final_players 0)
   = Inr [(1, [''Cez'', ''Tonto''], 70, True), (2, [''Berkelly''], 29, False)]"
  by code_simp

theorem leaderboard_groups_witness:
  "(0 :: int) \<le> 0
   \<and> map_sum id (map (\<lambda>(k, pl). (k, pl_names pl, pl_score pl, pl_tie pl)))
       (get_leaderboard final_players 0)
     = Inr [(1, [''Cez'', ''Tonto''], 70, True), (2, [''Berkelly''], 29, False)]"
proof -
  have h: "(0 :: int) \<le> 0" by simp
  from leaderboard_groups [OF h, of final_players]
  obtain lb where "get_leaderboard final_players 0 = Inr lb"
    and "map fst lb = map int [1..<Suc (length lb)]"
    by (elim exE conjE)
  with final_players_leaderboard show ?thesis
    by simp
qed

subsection \<open>Looking a place up\<close>

lemma dict_get_numbered:
  assumes "map fst d = map int [1..<Suc (length d)]"
  shows "dict_get d (int (Suc i)) dflt = (if i < length d then snd (d ! i) else dflt)"
proof (cases "i < length d")
  case True
  have "distinct (map int [1..<Suc (length d)])"
    by (simp add: distinct_map del: upt_Suc)
  then have dist: "distinct (map fst d)"
    by (simp only: assms)
  from True have "map fst d ! i = int (Suc i)"
    unfolding assms by (simp del: upt_Suc)
  with True have "fst (d ! i) = int (Suc i)"
    by simp
  then have "(int (Suc i), snd (d ! i)) = d ! i"
    by (metis prod.collapse)
  with True have "(int (Suc i), snd (d ! i)) \<in> set d"
    by (metis nth_mem)
  with dist have "map_of d (int (Suc i)) = Some (snd (d ! i))"
    by simp
  with True show ?thesis
    by (simp add: dict_get_def)
next
  case False
  have "fst ` set d = set (map fst d)"
    by simp
  also have "\<dots> = int ` {1..<Suc (length d)}"
    unfolding assms by (simp del: upt_Suc)
  finally have "int (Suc i) \<notin> fst ` set d"
    using False by auto
  then have "map_of d (int (Suc i)) = None"
    by (simp add: map_of_eq_None_iff)
  with False show ?thesis
    by (simp add: dict_get_def)
qed

lemma accessors:
  assumes "get_leaderboard self rn = Inr lb"
  shows "first self rn = Inr (if 0 < length lb then snd (lb ! 0) else EMPTY_PLACE)"
    and "second self rn = Inr (if 1 < length lb then snd (lb ! 1) else EMPTY_PLACE)"
    and "third self rn = Inr (if 2 < length lb then snd (lb ! 2) else EMPTY_PLACE)"
proof -
  note keys = leaderboard_keys [OF assms]
  show "first self rn = Inr (if 0 < length lb then snd (lb ! 0) else EMPTY_PLACE)"
    using dict_get_numbered [OF keys, of 0 EMPTY_PLACE] assms
    by (simp add: first_def)
  show "second self rn = Inr (if 1 < length lb then snd (lb ! 1) else EMPTY_PLACE)"
    using dict_get_numbered [OF keys, of 1 EMPTY_PLACE] assms
    by (simp add: second_def)
  show "third self rn = Inr (if 2 < length lb then snd (lb ! 2) else EMPTY_PLACE)"
    using dict_get_numbered [OF keys, of 2 EMPTY_PLACE] assms
    by (simp add: third_def)
qed

lemma no_players_leaderboard:
  assumes "players_list self = []"
  shows "get_leaderboard self rn = Inr []"
  using assms by (simp add: get_leaderboard_groups sorted_reverse_def)

text \<open>
  Claim C8. The sentinel \<^verbatim>\<open>EMPTY_PLACE\<close> has no representative, no members, no names,
  place 0, score 0 and no tie. For a set of no players, \<^verbatim>\<open>first\<close>, \<^verbatim>\<open>second\<close> and \<^verbatim>\<open>third\<close>
  return it for every round selector. For every set of players and every round selector
  (0 for the totals, or a round number) the three accessors return without an error;
  the leaderboard has as many places as there are distinct scores, and an accessor
  whose position is beyond them returns the sentinel, while one whose position exists
  returns the place of that number.
\<close>

theorem accessors_sentinel:
  "pl_player EMPTY_PLACE = None \<and> pl_players EMPTY_PLACE = [] \<and> pl_name EMPTY_PLACE = None
   \<and> pl_names EMPTY_PLACE = [] \<and> pl_place EMPTY_PLACE = 0 \<and> pl_score EMPTY_PLACE = 0
   \<and> \<not> pl_tie EMPTY_PLACE
   \<and> (players_list self = [] \<longrightarrow>
        first self rn = Inr EMPTY_PLACE \<and> second self rn = Inr EMPTY_PLACE
        \<and> third self rn = Inr EMPTY_PLACE)
   \<and> (0 \<le> rn \<longrightarrow>
        (\<exists>lb. get_leaderboard self rn = Inr lb
           \<and> length lb = card ((\<lambda>p. score p rn) ` set (players_list self))
           \<and> (length lb < 1 \<longrightarrow> first self rn = Inr EMPTY_PLACE)
           \<and> (length lb < 2 \<longrightarrow> second self rn = Inr EMPTY_PLACE)
           \<and> (length lb < 3 \<longrightarrow> third self rn = Inr EMPTY_PLACE)
           \<and> (1 \<le> length lb \<longrightarrow> first self rn = Inr (snd (lb ! 0)) \<and> pl_place (snd (lb ! 0)) = 1)
           \<and> (2 \<le> length lb \<longrightarrow> second self rn = Inr (snd (lb ! 1)) \<and> pl_place (snd (lb ! 1)) = 2)
           \<and> (3 \<le> length lb \<longrightarrow> third self rn = Inr (snd (lb ! 2)) \<and> pl_place (snd (lb ! 2)) = 3)))"
proof -
  have sentinel: "pl_player EMPTY_PLACE = None \<and> pl_players EMPTY_PLACE = []
    \<and> pl_name EMPTY_PLACE = None \<and> pl_names EMPTY_PLACE = [] \<and> pl_place EMPTY_PLACE = 0
    \<and> pl_score EMPTY_PLACE = 0 \<and> \<not> pl_tie EMPTY_PLACE"
    by (simp add: EMPTY_PLACE_def)
  have none: "first self rn = Inr EMPTY_PLACE \<and> second self rn = Inr EMPTY_PLACE
        \<and> third self rn = Inr EMPTY_PLACE" if "players_list self = []"
    using accessors [OF no_players_leaderboard [OF that, of rn]] by simp
  have some: "\<exists>lb. get_leaderboard self rn = Inr lb
           \<and> length lb = card ((\<lambda>p. score p rn) ` set (players_list self))
           \<and> (length lb < 1 \<longrightarrow> first self rn = Inr EMPTY_PLACE)
           \<and> (length lb < 2 \<longrightarrow> second self rn = Inr EMPTY_PLACE)
           \<and> (length lb < 3 \<longrightarrow> third self rn = Inr EMPTY_PLACE)
           \<and> (1 \<le> length lb \<longrightarrow> first self rn = Inr (snd (lb ! 0)) \<and> pl_place (snd (lb ! 0)) = 1)
           \<and> (2 \<le> length lb \<longrightarrow> second self rn = Inr (snd (lb ! 1)) \<and> pl_place (snd (lb ! 1)) = 2)
           \<and> (3 \<le> length lb \<longrightarrow> third self rn = Inr (snd (lb ! 2)) \<and> pl_place (snd (lb ! 2)) = 3)"
    if "0 \<le> rn"
  proof -
    from get_leaderboard_nonneg [OF that] obtain lb where lb: "get_leaderboard self rn = Inr lb"
      by blast
    have place: "pl_place (snd (lb ! i)) = int (Suc i)" if "i < length lb" for i
    proof -
      from that have "map fst lb ! i = int (Suc i)"
        unfolding leaderboard_keys [OF lb] by (simp del: upt_Suc)
      with that have "fst (lb ! i) = int (Suc i)"
        by simp
      moreover from that have "(fst (lb ! i), snd (lb ! i)) \<in> set lb"
        by simp
      ultimately show ?thesis
        using leaderboard_entry [OF lb] by simp
    qed
    have "length lb = card ((\<lambda>p. score p rn) ` set (players_list self))"
      by (rule leaderboard_count [OF lb])
    moreover have "length lb < 1 \<longrightarrow> first self rn = Inr EMPTY_PLACE"
      by (simp add: accessors(1) [OF lb])
    moreover have "length lb < 2 \<longrightarrow> second self rn = Inr EMPTY_PLACE"
      by (simp add: accessors(2) [OF lb])
    moreover have "length lb < 3 \<longrightarrow> third self rn = Inr EMPTY_PLACE"
      by (simp add: accessors(3) [OF lb])
    moreover have "1 \<le> length lb \<longrightarrow>
        first self rn = Inr (snd (lb ! 0)) \<and> pl_place (snd (lb ! 0)) = 1"
      using place [of 0] by (simp add: accessors(1) [OF lb])
    moreover have "2 \<le> length lb \<longrightarrow>
        second self rn = Inr (snd (lb ! 1)) \<and> pl_place (snd (lb ! 1)) = 2"
      using place [of 1] by (simp add: accessors(2) [OF lb])
    moreover have "3 \<le> length lb \<longrightarrow>
        third self rn = Inr (snd (lb ! 2)) \<and> pl_place (snd (lb ! 2)) = 3"
      using place [of 2] by (simp add: accessors(3) [OF lb])
    ultimately show ?thesis
      using lb by blast
  qed
  from sentinel none some show ?thesis
    by blast
qed

theorem accessors_sentinel_witness:
  "(0 :: int) \<le> 0
   \<and> third final_players 0 = Inr EMPTY_PLACE
   \<and> first \<lparr>players_list = [], current_player = 0\<rparr> 1 = Inr EMPTY_PLACE"
proof -
  have h: "(0 :: int) \<le> 0"
    by simp
  have "players_list \<lparr>players_list = [], current_player = 0\<rparr> = []"
    by simp
  with accessors_sentinel [of "\<lparr>players_list = [], current_player = 0\<rparr>" 1]
  have none: "first \<lparr>players_list = [], current_player = 0\<rparr> 1 = Inr EMPTY_PLACE"
    by blast
  from accessors_sentinel [of final_players 0] h
  have "\<exists>lb. get_leaderboard final_players 0 = Inr lb
          \<and> (length lb < 3 \<longrightarrow> third final_players 0 = Inr EMPTY_PLACE)"
    by blast
  then obtain lb where lb: "get_leaderboard final_players 0 = Inr lb"
    and third: "length lb < 3 \<longrightarrow> third final_players 0 = Inr EMPTY_PLACE"
    by (elim exE conjE)
  from final_players_leaderboard lb
  have "map (\<lambda>(k, pl). (k, pl_names pl, pl_score pl, pl_tie pl)) lb
        = [(1, [''Cez'', ''Tonto''], 70, True), (2, [''Berkelly''], 29, False)]"
    by simp
  then have "length (map (\<lambda>(k, pl). (k, pl_names pl, pl_score pl, pl_tie pl)) lb) = 2"
    by simp
  then have "length lb < 3"
    by simp
  with third none h show ?thesis
    by simp
qed

section \<open>The leaderboard as a string\<close>

lemma leaderboard_list_Cons:
  "leaderboard_list ((pos, pl) # lb) =
     map (\<lambda>nm. format_line pos nm (pl_score pl)) (pl_names pl) @ leaderboard_list lb"
  by (simp add: leaderboard_list_def)

lemma above_head:
  assumes "sorted_wrt (\<ge>) ((s :: int) # map fst rest)"
  shows "{k \<in> insert s (fst ` set rest). s < k} = {}"
  using assms by auto

lemma keys_split:
  "insert s (fst ` set rest) = insert s (fst ` set (dropWhile (\<lambda>kp. s = fst kp) rest))"
proof -
  have "fst ` set rest = fst ` set (takeWhile (\<lambda>kp. s = fst kp) rest @ dropWhile (\<lambda>kp. s = fst kp) rest)"
    by simp
  also have "\<dots> \<subseteq> insert s (fst ` set (dropWhile (\<lambda>kp. s = fst kp) rest))"
    by (auto simp del: takeWhile_dropWhile_id dest!: set_takeWhileD)
  finally show ?thesis
    by (auto dest: set_dropWhileD)
qed

lemma above_later:
  assumes "sorted_wrt (\<ge>) ((s :: int) # map fst rest)"
    and "kp \<in> set (dropWhile (\<lambda>kp. s = fst kp) rest)"
  shows "card {k \<in> insert s (fst ` set rest). fst kp < k}
         = Suc (card {k \<in> fst ` set (dropWhile (\<lambda>kp. s = fst kp) rest). fst kp < k})"
proof -
  let ?dw = "dropWhile (\<lambda>kp. s = fst kp) rest"
  from dropWhile_below [OF assms] have below: "fst kp < s" .
  have notin: "s \<notin> fst ` set ?dw"
    using dropWhile_below [OF assms(1)] by force
  have "{k \<in> insert s (fst ` set rest). fst kp < k} = {k \<in> insert s (fst ` set ?dw). fst kp < k}"
    by (simp only: keys_split [of s rest])
  also have "\<dots> = insert s {k \<in> fst ` set ?dw. fst kp < k}"
    using below by auto
  finally show ?thesis
    using notin by simp
qed

lemma groups_lines:
  assumes "sorted_wrt (\<ge>) (map fst kps)"
  shows "leaderboard_list (groups kps pos) =
         map (\<lambda>kp. format_line (pos + int (card {k \<in> fst ` set kps. fst kp < k}))
                      (name (snd kp)) (fst kp)) kps"
  using assms
proof (induction kps pos rule: groups.induct)
  case (1 pos)
  then show ?case by (simp add: leaderboard_list_def)
next
  case (2 s p rest pos)
  let ?tw = "takeWhile (\<lambda>kp. s = fst kp) rest"
  let ?dw = "dropWhile (\<lambda>kp. s = fst kp) rest"
  let ?K = "insert s (fst ` set rest)"
  let ?F = "\<lambda>kp. format_line (pos + int (card {k \<in> ?K. fst kp < k})) (name (snd kp)) (fst kp)"
  from "2.prems" have sorted: "sorted_wrt (\<ge>) (s # map fst rest)"
    by simp
  then have "sorted_wrt (\<ge>) (map fst ?dw)"
    by (simp add: sorted_wrt_map)
  then have IH: "leaderboard_list (groups ?dw (pos + 1)) =
      map (\<lambda>kp. format_line (pos + 1 + int (card {k \<in> fst ` set ?dw. fst kp < k}))
                   (name (snd kp)) (fst kp)) ?dw"
    by (rule "2.IH")
  have zero: "card {k \<in> ?K. s < k} = 0"
    by (simp only: above_head [OF sorted] card.empty)
  have head: "?F (s, p) = format_line pos (name p) s"
    unfolding fst_conv snd_conv zero by simp
  have "?F kp = format_line pos (name (snd kp)) s" if "kp \<in> set ?tw" for kp
  proof -
    from that have "fst kp = s"
      by (auto dest: set_takeWhileD)
    then show ?thesis
      unfolding \<open>fst kp = s\<close> zero by simp
  qed
  then have tw: "map ?F ?tw = map (\<lambda>nm. format_line pos nm s) (map (name \<circ> snd) ?tw)"
    by simp
  have "?F kp = format_line (pos + 1 + int (card {k \<in> fst ` set ?dw. fst kp < k}))
                   (name (snd kp)) (fst kp)" if "kp \<in> set ?dw" for kp
    unfolding above_later [OF sorted that] by (simp add: algebra_simps)
  then have dw: "map ?F ?dw =
      map (\<lambda>kp. format_line (pos + 1 + int (card {k \<in> fst ` set ?dw. fst kp < k}))
                   (name (snd kp)) (fst kp)) ?dw"
    by simp
  have "map ?F ((s, p) # rest) = ?F (s, p) # map ?F (?tw @ ?dw)"
    by simp
  also have "\<dots> = format_line pos (name p) s
      # map (\<lambda>nm. format_line pos nm s) (map (name \<circ> snd) ?tw)
      @ leaderboard_list (groups ?dw (pos + 1))"
    by (simp only: map_append head tw dw IH)
  also have "\<dots> = leaderboard_list (groups ((s, p) # rest) pos)"
    by (simp add: leaderboard_list_Cons make_place_def)
  finally show ?case
    by simp
qed

lemma insort_key_map:
  "insort_key f (g x) (map g xs) = map g (insort_key (\<lambda>x. f (g x)) x xs)"
  by (induction xs) simp_all

lemma sort_key_map: "sort_key f (map g xs) = map g (sort_key (\<lambda>x. f (g x)) xs)"
  by (induction xs) (simp_all add: insort_key_map)

lemma keyed_total: "keyed 0 ps = Inr (map (\<lambda>p. (total p, p)) ps)"
  using keyed_nonneg [of 0 ps] by (simp add: total_def)

lemma sorted_reverse_total:
  "sorted_reverse (map (\<lambda>p. (total p, p)) ps) = map (\<lambda>p. (total p, p)) (by_score ps)"
  by (simp add: sorted_reverse_def by_score_def sort_key_map)

lemma by_score_descending: "sorted_wrt (\<ge>) (map total (by_score ps))"
  unfolding by_score_def by (rule sorted_negated) (rule sorted_sort_key)

lemma leaderboard_list_spec:
  "leaderboard_list (groups (map (\<lambda>p. (total p, p)) (by_score ps)) 1) = spec_lines ps"
proof -
  let ?kps = "map (\<lambda>p. (total p, p)) (by_score ps)"
  have keys: "fst ` set ?kps = total ` set ps"
    by (force simp: by_score_def)
  have "map fst ?kps = map total (by_score ps)"
    by (simp add: comp_def)
  then have "sorted_wrt (\<ge>) (map fst ?kps)"
    by (simp only: by_score_descending)
  then have "leaderboard_list (groups ?kps 1) =
      map (\<lambda>kp. format_line (1 + int (card {k \<in> fst ` set ?kps. fst kp < k}))
                   (name (snd kp)) (fst kp)) ?kps"
    by (rule groups_lines)
  also have "\<dots> = spec_lines ps"
    unfolding keys by (simp add: spec_lines_def place_of_def comp_def)
  finally show ?thesis .
qed

lemma players_str_spec:
  "players_str self = Inr (join [CHR 0x0A] (spec_lines (players_list self)))"
  by (simp add: players_str_def get_leaderboard_groups keyed_total sorted_reverse_total
      leaderboard_list_spec)

lemma join_last:
  assumes "xs \<noteq> []" and "last xs \<noteq> []"
  shows "join sep xs \<noteq> [] \<and> last (join sep xs) = last (last xs)"
  using assms by (induction sep xs rule: join.induct) auto

lemma format_line_last:
  "format_line pos nm sc \<noteq> [] \<and> last (format_line pos nm sc) = CHR '')''"
  by (simp add: format_line_def)

lemma spec_lines_length: "length (spec_lines ps) = length ps"
  by (simp add: spec_lines_def by_score_def)

lemma descending_strict:
  assumes "sorted_wrt (\<ge>) (xs :: int list)" and "distinct xs"
  shows "sorted_wrt (>) xs"
  using assms by (induction xs) (auto simp: order_less_le)

lemma strictly_above:
  assumes "sorted_wrt (>) (xs :: int list)" and "i < length xs"
  shows "{k \<in> set xs. xs ! i < k} = set (take i xs)"
  using assms
proof (induction xs arbitrary: i)
  case Nil
  then show ?case by simp
next
  case (Cons a ys)
  show ?case
  proof (cases i)
    case 0
    with Cons.prems show ?thesis by auto
  next
    case (Suc j)
    with Cons.prems have j: "j < length ys" and "sorted_wrt (>) ys" and a: "\<forall>y \<in> set ys. y < a"
      by auto
    then have "{k \<in> set ys. ys ! j < k} = set (take j ys)"
      using Cons.IH by blast
    moreover from a j have "ys ! j < a"
      by simp
    ultimately show ?thesis
      using Suc by auto
  qed
qed

lemma place_of_distinct:
  assumes "distinct (map total ps)" and "i < length ps"
  shows "place_of ps (by_score ps ! i) = int (Suc i)"
proof -
  let ?xs = "map total (by_score ps)"
  have perm: "mset ?xs = mset (map total ps)"
    by (simp add: by_score_def)
  then have "distinct ?xs"
    using assms(1) by (metis mset_eq_imp_distinct_iff)
  with by_score_descending have strict: "sorted_wrt (>) ?xs"
    by (rule descending_strict)
  from assms(2) have i: "i < length ?xs"
    by (simp add: by_score_def)
  have "set ?xs = total ` set ps"
    using perm by (metis mset_eq_setD set_map)
  then have "{k \<in> total ` set ps. total (by_score ps ! i) < k} = {k \<in> set ?xs. ?xs ! i < k}"
    using i by simp
  also have "\<dots> = set (take i ?xs)"
    using strict i by (rule strictly_above)
  finally have "card {k \<in> total ` set ps. total (by_score ps ! i) < k} = card (set (take i ?xs))"
    by simp
  also have "\<dots> = length (take i ?xs)"
    using \<open>distinct ?xs\<close> by (intro distinct_card distinct_take)
  finally show ?thesis
    using i by (simp add: place_of_def)
qed

lemma place_of_antitone:
  assumes "total q \<le> total p"
  shows "place_of ps p \<le> place_of ps q"
proof -
  have "{k \<in> total ` set ps. total p < k} \<subseteq> {k \<in> total ` set ps. total q < k}"
    using assms by auto
  moreover have "finite {k \<in> total ` set ps. total q < k}"
    by simp
  ultimately have "card {k \<in> total ` set ps. total p < k} \<le> card {k \<in> total ` set ps. total q < k}"
    by (rule card_mono [rotated])
  then show ?thesis
    by (simp add: place_of_def)
qed

lemma places_sorted:
  assumes "sorted_wrt (\<ge>) (map total xs)"
  shows "sorted (map (place_of ps) xs)"
  using assms by (induction xs) (auto intro: place_of_antitone)

lemma by_score_places: "sorted (map (place_of ps) (by_score ps))"
  by (rule places_sorted) (rule by_score_descending)

lemma by_score_stable:
  "filter (\<lambda>p. total p = k) (by_score ps) = filter (\<lambda>p. total p = k) ps"
proof -
  have "filter (\<lambda>p. - total p = - k) (sort_key (\<lambda>p. - total p) ps)
        = filter (\<lambda>p. - total p = - k) ps"
    by (rule sort_key_stable)
  then show ?thesis
    by (simp add: by_score_def)
qed

text \<open>
  Claim C7. The string of a set of players is the lines of the specification joined by
  newlines: one line for every player, each "place: name (score)", with the places
  never decreasing down the lines and the players of equal score in registration
  order. There are as many lines as players;
  the string is empty for no players and otherwise ends with the closing bracket of the
  last line, not with a newline. When all scores differ, the places are 1 .. N down the
  lines and the scores strictly decrease.
\<close>

theorem players_str_lines:
  "players_str self = Inr (join [CHR 0x0A] (spec_lines (players_list self)))
   \<and> length (spec_lines (players_list self)) = length (players_list self)
   \<and> sorted (map (place_of (players_list self)) (by_score (players_list self)))
   \<and> (\<forall>k. filter (\<lambda>p. total p = k) (by_score (players_list self))
            = filter (\<lambda>p. total p = k) (players_list self))
   \<and> (players_list self = [] \<longrightarrow> players_str self = Inr [])
   \<and> (players_list self \<noteq> [] \<longrightarrow>
        (\<exists>s. players_str self = Inr s \<and> s \<noteq> [] \<and> last s = CHR '')''))
   \<and> (distinct (map total (players_list self)) \<longrightarrow>
        spec_lines (players_list self) =
          map (\<lambda>i. format_line (int (Suc i)) (name (by_score (players_list self) ! i))
                       (total (by_score (players_list self) ! i)))
            [0..<length (players_list self)]
        \<and> sorted_wrt (>) (map total (by_score (players_list self))))"
proof -
  let ?ps = "players_list self"
  have empty: "players_str self = Inr []" if "?ps = []"
    using that by (simp add: players_str_spec spec_lines_def by_score_def)
  have ends: "\<exists>s. players_str self = Inr s \<and> s \<noteq> [] \<and> last s = CHR '')''" if "?ps \<noteq> []"
  proof -
    from that have ne: "spec_lines ?ps \<noteq> []"
      using spec_lines_length [of ?ps] by auto
    then have "last (spec_lines ?ps) \<in> set (spec_lines ?ps)"
      by simp
    then obtain pos nm sc where "last (spec_lines ?ps) = format_line pos nm sc"
      by (auto simp: spec_lines_def)
    with format_line_last [of pos nm sc]
    have "last (spec_lines ?ps) \<noteq> []" and "last (last (spec_lines ?ps)) = CHR '')''"
      by simp_all
    with join_last [OF ne, of "[CHR 0x0A]"] show ?thesis
      by (simp add: players_str_spec)
  qed
  have distinct_case: "spec_lines ?ps =
          map (\<lambda>i. format_line (int (Suc i)) (name (by_score ?ps ! i)) (total (by_score ?ps ! i)))
            [0..<length ?ps]
        \<and> sorted_wrt (>) (map total (by_score ?ps))" if d: "distinct (map total ?ps)"
  proof
    have len: "length (by_score ?ps) = length ?ps"
      by (simp add: by_score_def)
    have "spec_lines ?ps =
        map (\<lambda>i. format_line (place_of ?ps (by_score ?ps ! i)) (name (by_score ?ps ! i))
                     (total (by_score ?ps ! i))) [0..<length (by_score ?ps)]"
      unfolding spec_lines_def by (rule map_equality_iff [THEN iffD2]) simp
    also have "\<dots> = map (\<lambda>i. format_line (int (Suc i)) (name (by_score ?ps ! i))
                     (total (by_score ?ps ! i))) [0..<length ?ps]"
      unfolding len using place_of_distinct [OF d] by simp
    finally show "spec_lines ?ps =
          map (\<lambda>i. format_line (int (Suc i)) (name (by_score ?ps ! i)) (total (by_score ?ps ! i)))
            [0..<length ?ps]" .
    have "mset (map total (by_score ?ps)) = mset (map total ?ps)"
      by (simp add: by_score_def)
    then have "distinct (map total (by_score ?ps))"
      using d by (metis mset_eq_imp_distinct_iff)
    with by_score_descending show "sorted_wrt (>) (map total (by_score ?ps))"
      by (rule descending_strict)
  qed
  from players_str_spec [of self] spec_lines_length [of ?ps] by_score_places [of ?ps]
    by_score_stable [of _ ?ps] empty ends distinct_case
  show ?thesis
    by blast
qed

lemma three_players_str:
  "players_str three_players =
     Inr (''1: Berkelly (56)'' @ [CHR 0x0A] @ ''2: Cez (10)'' @ [CHR 0x0A] @ ''2: Tonto (10)'')"
  by code_simp

lemma distinct_players_str:
  "players_str distinct_players =
     Inr (''1: Tonto (71)'' @ [CHR 0x0A] @ ''2: Cez (58)'' @ [CHR 0x0A] @ ''3: Berkelly (37)'')"
  by code_simp

lemma distinct_players_totals: "map total (players_list distinct_players) = [37, 58, 71]"
  by code_simp

theorem players_str_lines_witness:
  "players_list three_players \<noteq> []
   \<and> players_str three_players =
       Inr (''1: Berkelly (56)'' @ [CHR 0x0A] @ ''2: Cez (10)'' @ [CHR 0x0A] @ ''2: Tonto (10)'')
   \<and> length (spec_lines (players_list three_players)) = 3
   \<and> players_str \<lparr>players_list = [], current_player = 0\<rparr> = Inr []
   \<and> distinct (map total (players_list distinct_players))
   \<and> players_str distinct_players =
       Inr (''1: Tonto (71)'' @ [CHR 0x0A] @ ''2: Cez (58)'' @ [CHR 0x0A] @ ''3: Berkelly (37)'')
   \<and> sorted_wrt (>) (map total (by_score (players_list distinct_players)))"
proof -
  have ne: "players_list three_players \<noteq> []"
    by (simp add: three_players_def)
  have "length (players_list three_players) = 3"
    by (simp add: three_players_def)
  with players_str_lines [of three_players]
  have three: "length (spec_lines (players_list three_players)) = 3"
    by simp
  have "players_list \<lparr>players_list = [], current_player = 0\<rparr> = []"
    by simp
  with players_str_lines [of "\<lparr>players_list = [], current_player = 0\<rparr>"]
  have none: "players_str \<lparr>players_list = [], current_player = 0\<rparr> = Inr []"
    by blast
  have d: "distinct (map total (players_list distinct_players))"
    by (simp add: distinct_players_totals)
  with players_str_lines [of distinct_players]
  have "sorted_wrt (>) (map total (by_score (players_list distinct_players)))"
    by blast
  with ne three none d show ?thesis
    using three_players_str distinct_players_str by simp
qed

section \<open>Drawing from an empty deck\<close>

lemma initiate_deck_length: "length (cards (initiate_deck d)) = 52"
  by (simp add: initiate_deck_def ALL_SUITS_def ALL_RANKS_def)

lemma get_card_nonempty:
  assumes "cards d \<noteq> []"
  shows "get_card d = Inr (last (cards d), d\<lparr>cards := butlast (cards d)\<rparr>)"
  using assms by (simp add: get_card_def)

lemma draw_from_nonempty:
  assumes "cards (deck g) \<noteq> []"
  shows "draw_from_deck shuf g =
         Inr (last (cards (deck g)), g\<lparr>deck := (deck g)\<lparr>cards := butlast (cards (deck g))\<rparr>\<rparr>)"
  using assms by (simp add: draw_from_deck_def get_card_def)

lemma draw_from_empty:
  assumes "cards (deck g) = []" and "\<forall>k xs. mset (shuf k xs) = mset xs"
  shows "\<exists>c g1. draw_from_deck shuf g = Inr (c, g1)
           \<and> out g1 = out g @ [EMPTY_DECK]
           \<and> rand (deck g1) = Suc (rand (deck g))
           \<and> mset (cards (deck g1)) + {#c#} = mset (cards (initiate_deck (deck g)))
           \<and> length (cards (deck g1)) = 51
           \<and> players g1 = players g"
proof -
  let ?fresh = "cards (initiate_deck (deck g))"
  let ?sh = "shuf (rand (deck g)) ?fresh"
  from assms(2) have perm: "mset ?sh = mset ?fresh"
    by blast
  then have "length ?sh = length ?fresh"
    by (rule mset_eq_length)
  then have len: "length ?sh = 52"
    by (simp only: initiate_deck_length)
  then have ne: "?sh \<noteq> []"
    by auto
  then have split: "butlast ?sh @ [last ?sh] = ?sh"
    by simp
  have "mset (butlast ?sh) + {#last ?sh#} = mset (butlast ?sh @ [last ?sh])"
    by simp
  also have "\<dots> = mset ?fresh"
    by (simp only: split perm)
  finally have m: "mset (butlast ?sh) + {#last ?sh#} = mset ?fresh" .
  have r: "rand (initiate_deck (deck g)) = rand (deck g)"
    by (simp add: initiate_deck_def)
  show ?thesis
    using assms(1) ne m len r
    by (simp add: draw_from_deck_def get_card_def display_message_def new_deck_def
        shuffle_def Let_def)
qed

lemma draw_from_deck_returns:
  assumes "\<forall>k xs. mset (shuf k xs) = mset xs"
  shows "\<exists>c g1. draw_from_deck shuf g = Inr (c, g1) \<and> players g1 = players g"
proof (cases "cards (deck g) = []")
  case True
  from draw_from_empty [OF True assms] show ?thesis
    by blast
next
  case False
  then show ?thesis
    by (simp add: draw_from_nonempty)
qed

lemma get_leaderboard_total:
  "get_leaderboard self 0 = Inr (groups (map (\<lambda>p. (total p, p)) (by_score (players_list self))) 1)"
  by (simp add: get_leaderboard_groups keyed_total sorted_reverse_total)

lemma first_total: "\<exists>fp. first self 0 = Inr fp"
  by (simp add: first_def get_leaderboard_total)

lemma score_total: "score p 0 = Inr (total p)"
  using score_nonneg [of 0 p] by (simp add: total_def)

lemma turn_returns:
  assumes "\<forall>k xs. mset (shuf k xs) = mset xs"
  shows "\<exists>g1. turn shuf g i = Inr g1"
proof -
  let ?g = "display_message g (TURN_START (name (players_list (players g) ! i)))"
  from draw_from_deck_returns [OF assms, of ?g] obtain c g2
    where d: "draw_from_deck shuf ?g = Inr (c, g2)"
    by blast
  let ?p = "draw_card (players_list (players g) ! i) c"
  let ?g3 = "g2\<lparr>players := (players g2)\<lparr>players_list := (players_list (players g2))[i := ?p]\<rparr>\<rparr>"
  from first_total [of "players ?g3"] obtain fp where "first (players ?g3) 0 = Inr fp"
    by blast
  with d show ?thesis
    by (simp add: turn_def Let_def score_total)
qed

















section \<open>The end of a turn\<close>

lemma takeWhile_equal_head:
  assumes "sorted_wrt (\<ge>) ((a :: int) # map f rest)"
  shows "set (takeWhile (\<lambda>x. a = f x) rest) = {x \<in> set rest. f x = a}"
  using assms
proof (induction rest)
  case Nil
  then show ?case by simp
next
  case (Cons y ys)
  show ?case
  proof (cases "a = f y")
    case True
    with Cons show ?thesis by auto
  next
    case False
    with Cons.prems have "f y < a" and "\<forall>x \<in> set ys. f x \<le> f y"
      by auto
    then have "\<forall>x \<in> set ys. f x \<noteq> a"
      by auto
    with False show ?thesis by auto
  qed
qed

lemma first_place_members:
  assumes "first self 0 = Inr fp"
  shows "set (pl_players fp) =
         {p \<in> set (players_list self). \<forall>q \<in> set (players_list self). total q \<le> total p}"
proof (cases "by_score (players_list self)")
  case Nil
  then have "set (by_score (players_list self)) = {}"
    by simp
  then have "players_list self = []"
    by (simp add: by_score_def)
  with assms Nil show ?thesis
    by (auto simp: first_def get_leaderboard_total dict_get_def EMPTY_PLACE_def)
next
  case (Cons p0 rest)
  let ?ps = "players_list self"
  have set_ps: "set ?ps = set (p0 # rest)"
    using Cons by (metis by_score_def set_sort)
  from by_score_descending [of ?ps] Cons have sorted: "sorted_wrt (\<ge>) (total p0 # map total rest)"
    by simp
  then have top: "\<forall>q \<in> set (p0 # rest). total q \<le> total p0"
    by auto
  have "map snd (takeWhile (\<lambda>kp. total p0 = fst kp) (map (\<lambda>p. (total p, p)) rest))
        = takeWhile (\<lambda>p. total p0 = total p) rest"
    by (simp add: takeWhile_map comp_def)
  with assms Cons have "pl_players fp = p0 # takeWhile (\<lambda>p. total p0 = total p) rest"
    by (auto simp: first_def get_leaderboard_total dict_get_def make_place_def)
  then have "set (pl_players fp) = insert p0 {x \<in> set rest. total x = total p0}"
    by (simp only: list.set takeWhile_equal_head [OF sorted])
  also have "\<dots> = {p \<in> set (p0 # rest). \<forall>q \<in> set (p0 # rest). total q \<le> total p}"
    using top by force
  finally show ?thesis
    by (simp only: set_ps)
qed

lemma turn_result:
  assumes "turn shuf g i = Inr g1" and "i < length (players_list (players g))"
  obtains c fp where "players_list (players g1) = (players_list (players g))[i := draw_card (players_list (players g) ! i) c]"
    and "first (players g1) 0 = Inr fp"
    and "last (out g1) = TURN_END (draw_card (players_list (players g) ! i) c \<in> set (pl_players fp))
           (name (players_list (players g) ! i)) c (total (draw_card (players_list (players g) ! i) c))"
proof -
  let ?g = "display_message g (TURN_START (name (players_list (players g) ! i)))"
  from assms(1) obtain c g2 where d: "draw_from_deck shuf ?g = Inr (c, g2)"
    by (auto simp: turn_def Let_def split: sum.splits prod.splits)
  from draw_from_deck_fields [OF d] have ps: "players g2 = players g"
    by (simp add: display_message_def)
  let ?p = "draw_card (players_list (players g) ! i) c"
  let ?g3 = "g2\<lparr>players := (players g)\<lparr>players_list := (players_list (players g))[i := ?p]\<rparr>\<rparr>"
  from first_total [of "players ?g3"] obtain fp where f: "first (players ?g3) 0 = Inr fp"
    by blast
  from assms(1) d ps f
  have g1: "g1 = display_message ?g3 (TURN_END (?p \<in> set (pl_players fp)) (name ?p) c (total ?p))"
    by (simp add: turn_def Let_def score_total)
  have "players_list (players g1) = (players_list (players g))[i := ?p]"
    by (simp add: g1 display_message_def)
  moreover have "first (players g1) 0 = Inr fp"
    using f by (simp add: g1 display_message_def)
  moreover have "last (out g1) = TURN_END (?p \<in> set (pl_players fp))
           (name (players_list (players g) ! i)) c (total ?p)"
    by (simp add: g1 display_message_def draw_card_def)
  ultimately show ?thesis
    by (rule that)
qed

text \<open>
  Claim C1, as the code has it. A turn appends the drawn card to the hand of its
  player and then ends with the positive message exactly when that player is in the
  first place of the leaderboard of the total scores (round selector 0) of the players
  as they are after the draw, that is, when no player has a higher total; the message
  carries the player's name, the card and the player's total.
\<close>

theorem turn_end_branch:
  assumes "turn shuf g i = Inr g1" and "i < length (players_list (players g))"
  shows "\<exists>c fp.
      hand (players_list (players g1) ! i) = hand (players_list (players g) ! i) @ [c]
    \<and> first (players g1) 0 = Inr fp
    \<and> last (out g1) =
        TURN_END (players_list (players g1) ! i \<in> set (pl_players fp))
          (name (players_list (players g1) ! i)) c (total (players_list (players g1) ! i))
    \<and> (players_list (players g1) ! i \<in> set (pl_players fp)) =
        (\<forall>q \<in> set (players_list (players g1)).
            total q \<le> total (players_list (players g1) ! i))"
proof -
  from assms obtain c fp
    where ps: "players_list (players g1) = (players_list (players g))[i := draw_card (players_list (players g) ! i) c]"
      and f: "first (players g1) 0 = Inr fp"
      and l: "last (out g1) = TURN_END (draw_card (players_list (players g) ! i) c \<in> set (pl_players fp))
           (name (players_list (players g) ! i)) c (total (draw_card (players_list (players g) ! i) c))"
    by (rule turn_result)
  let ?p = "players_list (players g1) ! i"
  from ps assms(2) have p: "?p = draw_card (players_list (players g) ! i) c"
    by simp
  then have h: "hand ?p = hand (players_list (players g) ! i) @ [c]"
    and n: "name ?p = name (players_list (players g) ! i)"
    by (simp_all add: draw_card_def)
  from ps assms(2) have "i < length (players_list (players g1))"
    by simp
  then have "?p \<in> set (players_list (players g1))"
    by (rule nth_mem)
  with first_place_members [OF f]
  have "(?p \<in> set (pl_players fp)) = (\<forall>q \<in> set (players_list (players g1)). total q \<le> total ?p)"
    by simp
  with h f l show ?thesis
    unfolding p [symmetric] n [symmetric] by blast
qed

lemma fifth_game_constructed:
  "Game shuf [] conf [''Berkelly'', ''Cez'', ''Tonto''] (Some fifth_deck) 3 (Some MESSAGE)
   = Inr fifth_game"
  by (simp add: Game_result MESSAGE_nonempty Players_def hasattr_def CLASS_ATTRIBUTES_def
      INSTANCE_ATTRIBUTES_def Player_def deck_bool_def fifth_deck_def fifth_game_def)

lemma third_round_game_reached:
  "(case next_round keep_order fifth_game of
      Inl e \<Rightarrow> Inl e
    | Inr g \<Rightarrow> map_sum id (\<lambda>g. g\<lparr>out := []\<rparr>) (next_round keep_order g))
   = Inr third_round_game"
  by code_simp

lemma third_round_first_turn:
  "map_sum id (\<lambda>g. last (out g)) (turn keep_order third_round_game 0)
   = Inr (TURN_END False ''Berkelly'' \<lparr>suit = Diamonds, rank = R3\<rparr> 29)"
  by code_simp

theorem turn_end_branch_witness:
  "0 < length (players_list (players third_round_game))
   \<and> map_sum id (\<lambda>g. last (out g)) (turn keep_order third_round_game 0)
       = Inr (TURN_END False ''Berkelly'' \<lparr>suit = Diamonds, rank = R3\<rparr> 29)
   \<and> map_sum id
        (\<lambda>g. \<forall>q \<in> set (players_list (players g)). total q \<le> total (players_list (players g) ! 0))
        (turn keep_order third_round_game 0) = Inr False"
proof -
  have len: "0 < length (players_list (players third_round_game))"
    by (simp add: third_round_game_def)
  from turn_returns [of keep_order third_round_game 0] obtain g1
    where t: "turn keep_order third_round_game 0 = Inr g1"
    by (auto simp: keep_order_def)
  from turn_end_branch [OF t len] obtain c fp
    where both: "hand (players_list (players g1) ! 0) =
        hand (players_list (players third_round_game) ! 0) @ [c]
      \<and> first (players g1) 0 = Inr fp
      \<and> last (out g1) =
        TURN_END (players_list (players g1) ! 0 \<in> set (pl_players fp))
          (name (players_list (players g1) ! 0)) c (total (players_list (players g1) ! 0))
      \<and> (players_list (players g1) ! 0 \<in> set (pl_players fp)) =
        (\<forall>q \<in> set (players_list (players g1)).
            total q \<le> total (players_list (players g1) ! 0))"
    by blast
  then have "last (out g1) =
        TURN_END (players_list (players g1) ! 0 \<in> set (pl_players fp))
          (name (players_list (players g1) ! 0)) c (total (players_list (players g1) ! 0))"
    and "(players_list (players g1) ! 0 \<in> set (pl_players fp)) =
        (\<forall>q \<in> set (players_list (players g1)).
            total q \<le> total (players_list (players g1) ! 0))"
    by simp_all
  with third_round_first_turn t len show ?thesis
    by auto
qed

text \<open>
  The claim as stated fails at the first turn of that third round. Berkelly draws the
  3 of Diamonds; over the scores of the third round alone Berkelly is in the first
  place (nobody else has drawn in that round yet), but the turn ends with the negative
  message, because Berkelly's total of 29 is below the totals of Cez and Tonto.
\<close>

theorem turn_end_branch_counterexample:
  "(case next_round keep_order fifth_game of
      Inl e \<Rightarrow> Inl e
    | Inr g \<Rightarrow> map_sum id (\<lambda>g. g\<lparr>out := []\<rparr>) (next_round keep_order g))
   = Inr third_round_game
   \<and> map_sum id (\<lambda>g. last (out g)) (turn keep_order third_round_game 0)
       = Inr (TURN_END False ''Berkelly'' \<lparr>suit = Diamonds, rank = R3\<rparr> 29)
   \<and> (case turn keep_order third_round_game 0 of
         Inl e \<Rightarrow> Inl e
       | Inr g \<Rightarrow> map_sum id (\<lambda>fp. (players_list (players g) ! 0 \<in> set (pl_players fp), pl_names fp))
                    (first (players g) (current_round g)))
       = Inr (True, [''Berkelly''])"
  by (simp only: third_round_game_reached third_round_first_turn simp_thms) code_simp

section \<open>A whole game\<close>

text \<open>
  Claim C3. The game built from the deck Clubs-6, Spades-8, Diamonds-3, Clubs-9,
  Clubs-Ace, Spades-King, Diamonds-5, Diamonds-3, Spades-10 (the top is the last
  card), the players Berkelly, Cez and Tonto and three rounds displays, when played,
  the messages of the test; after the third round the totals are 29 for Berkelly and
  70 each for Cez and Tonto, the first place is a tie of Cez and Tonto at 70, the game
  ends with the tie message, and the leaderboard printed is "1: Cez (70)",
  "1: Tonto (70)", "2: Berkelly (29)", in that order. No shuffle takes place, so this
  holds for every random source.
\<close>

theorem fifth_game_run:
  "Game shuf [] conf [''Berkelly'', ''Cez'', ''Tonto''] (Some fifth_deck) 3 (Some MESSAGE)
     = Inr fifth_game
   \<and> map_sum id out (play shuf fifth_game) =
     Inr [WELCOME, ROUND_START 1,
          TURN_START ''Berkelly'', TURN_END True ''Berkelly'' \<lparr>suit = Spades, rank = R10\<rparr> 10,
          TURN_START ''Cez'', TURN_END False ''Cez'' \<lparr>suit = Diamonds, rank = R3\<rparr> 6,
          TURN_START ''Tonto'', TURN_END True ''Tonto'' \<lparr>suit = Diamonds, rank = R5\<rparr> 10,
          ROUND_END_TIE, ROUND_START 2,
          TURN_START ''Berkelly'', TURN_END True ''Berkelly'' \<lparr>suit = Spades, rank = King\<rparr> 23,
          TURN_START ''Cez'', TURN_END True ''Cez'' \<lparr>suit = Clubs, rank = Ace\<rparr> 62,
          TURN_START ''Tonto'', TURN_END False ''Tonto'' \<lparr>suit = Clubs, rank = R9\<rparr> 46,
          ROUND_END (Some ''Cez''), ROUND_START 3,
          TURN_START ''Berkelly'', TURN_END False ''Berkelly'' \<lparr>suit = Diamonds, rank = R3\<rparr> 29,
          TURN_START ''Cez'', TURN_END True ''Cez'' \<lparr>suit = Spades, rank = R8\<rparr> 70,
          TURN_START ''Tonto'', TURN_END True ''Tonto'' \<lparr>suit = Clubs, rank = R6\<rparr> 70,
          ROUND_END (Some ''Tonto''), GAME_OVER_TIE,
          PRINT (''1: Cez (70)'' @ [CHR 0x0A] @ ''1: Tonto (70)'' @ [CHR 0x0A] @ ''2: Berkelly (29)'')]
   \<and> map_sum id (\<lambda>g. map (\<lambda>p. (name p, score p 0)) (players_list (players g)))
        (play shuf fifth_game)
     = Inr [(''Berkelly'', Inr 29), (''Cez'', Inr 70), (''Tonto'', Inr 70)]
   \<and> (case play shuf fifth_game of
         Inl e \<Rightarrow> Inl e
       | Inr g \<Rightarrow> map_sum id (\<lambda>fp. (pl_names fp, pl_score fp, pl_tie fp)) (first (players g) 0))
     = Inr ([''Cez'', ''Tonto''], 70, True)
   \<and> (case play shuf fifth_game of Inl e \<Rightarrow> Inl e | Inr g \<Rightarrow> players_str (players g))
     = Inr (''1: Cez (70)'' @ [CHR 0x0A] @ ''1: Tonto (70)'' @ [CHR 0x0A] @ ''2: Berkelly (29)'')
   \<and> map_sum id (\<lambda>g. (is_active g, current_round g, deck g)) (play shuf fifth_game)
     = Inr (False, 4, \<lparr>cards = [], current_card = 0, rand = 0\<rparr>)"
  by (simp only: fifth_game_constructed simp_thms) code_simp

end
